theory Spec2Isabelle
  imports
    Main
    "HOL-Library.Char_ord"
    "HOL-Library.List_Lexorder"
    "HOL-Library.Multiset"
    "HOL-Library.Sublist"
begin

section \<open>Errors\<close>

text \<open>
  Every exception the modelled code can raise and every error it returns as data.
  \<open>NotFound404 url\<close> is the value of \<open>ErrorFactory.create404Error({ url })\<close>,
  \<open>DendronErr msg\<close> is \<open>new DendronError({ message })\<close>, \<open>InvalidState msg\<close> is what
  \<open>assertInvalidState(msg)\<close> throws, \<open>JsError msg\<close> is a plain \<open>Error(msg)\<close> and
  \<open>TypeError\<close> is the run-time error of reading a property of \<open>undefined\<close>.
\<close>

datatype DendronError =
    NotFound404 string
  | DendronErr string
  | InvalidState string
  | JsError string
  | TypeError

section \<open>String helpers of lodash\<close>

text \<open>
  \<open>_.trim(text, chars)\<close> removes from both ends of \<open>text\<close> every character that
  occurs in \<open>chars\<close>.
\<close>

definition trimChars :: "string \<Rightarrow> string \<Rightarrow> string" where
  "trimChars text chars =
     rev (dropWhile (\<lambda>c. c \<in> set chars) (rev (dropWhile (\<lambda>c. c \<in> set chars) text)))"

section \<open>Engine utilities (utils.ts)\<close>

subsection \<open>normalizev2\<close>

text \<open>
  The slugger is an argument of \<open>normalizev2\<close>; it comes from \<open>getSlugger()\<close> of
  common-all (a github-slugger instance), which is stateful: \<open>slug\<close> returns the slug and
  remembers it. The model takes the slugger as a state \<open>'s\<close> together with its \<open>slug\<close>
  method \<open>'s \<Rightarrow> string \<Rightarrow> string \<times> 's\<close>.
\<close>

definition normalizev2 ::
  "('s \<Rightarrow> string \<Rightarrow> string \<times> 's) \<Rightarrow> string \<Rightarrow> 's \<Rightarrow> string \<times> 's" where
  "normalizev2 slug text slugger =
     (let u = trimChars text '' #''
      in if u = ''*'' then (u, slugger) else slug slugger u)"

subsection \<open>Port file discovery\<close>

text \<open>
  The collaborators of the port-file functions that are not part of utils.ts:
  \<open>path.join\<close> of Node, the constant \<open>CONSTANTS.DENDRON_SERVER_PORT\<close> of common-all and
  the file system as seen by \<open>fs.existsSync\<close>.
\<close>

record PortEnv =
  path_join :: "string \<Rightarrow> string \<Rightarrow> string"
  DENDRON_SERVER_PORT :: string
  existsSync :: "string \<Rightarrow> bool"

datatype PortTarget = workspace | cli

definition getPortFilePathForTarget :: "PortEnv \<Rightarrow> string \<Rightarrow> PortTarget \<Rightarrow> string" where
  "getPortFilePathForTarget env wsRoot target =
     (let suffix = (if target = cli then ''.cli'' else '''');
          portFile = path_join env wsRoot (DENDRON_SERVER_PORT env) @ suffix
      in portFile)"

definition getPortFilePathForWorkspace :: "PortEnv \<Rightarrow> string \<Rightarrow> string" where
  "getPortFilePathForWorkspace env wsRoot = getPortFilePathForTarget env wsRoot workspace"

definition getPortFilePathForCLI :: "PortEnv \<Rightarrow> string \<Rightarrow> string" where
  "getPortFilePathForCLI env wsRoot = getPortFilePathForTarget env wsRoot cli"

text \<open>\<open>RespV3<string>\<close>: \<open>{ data }\<close> is \<open>Inr\<close>, \<open>{ error }\<close> is \<open>Inl\<close>.\<close>

definition getPortFilePath :: "PortEnv \<Rightarrow> string \<Rightarrow> DendronError + string" where
  "getPortFilePath env wsRoot =
     (let portFilePath = getPortFilePathForWorkspace env wsRoot
      in if existsSync env portFilePath then Inr portFilePath
         else let portFilePath = getPortFilePathForCLI env wsRoot
              in if existsSync env portFilePath then Inr portFilePath
                 else Inl (NotFound404 portFilePath))"

section \<open>Data model (types of common-all used by the modelled code)\<close>

text \<open>
  The type declarations live in common-all, outside the modelled files; the records keep
  the fields the modelled code reads or writes. An optional field is an \<open>option\<close>.
  \<open>stub?: boolean\<close> is only ever tested for truth, so a missing flag is \<open>False\<close>.
  \<open>vault\<close> of a note is an option because \<open>getBrokenLinkDestinations\<close> can hand
  \<open>undefined\<close> to \<open>NoteUtils.create\<close> behind a non-null assertion.
\<close>

record DVault =
  fsPath :: string
  vault_name :: "string option"

record DNoteLoc =
  loc_fname :: string
  loc_vaultName :: "string option"

datatype LinkType = ref | wiki | md | backlink | linkCandidate | frontmatterTag

record DLink =
  link_type :: LinkType
  link_value :: string
  link_from :: DNoteLoc
  link_to :: "DNoteLoc option"
  link_position :: "(nat \<times> nat) option"

text \<open>Values of the free-form \<open>custom\<close> frontmatter bag, as far as the doctor touches them.\<close>

datatype JSVal = JUndefined | JStr string | JObj "(string \<times> JSVal) list"

record NoteProps =
  id' :: string
  fname :: string
  vault :: "DVault option"
  title :: string
  body :: string
  stub :: bool
  children :: "string list"
  links :: "DLink list"
  custom :: "(string \<times> JSVal) list"

datatype ChangeStatus = st_create | st_update | st_delete

record NoteChangeEntry =
  ent_status :: ChangeStatus
  ent_note :: NoteProps
  ent_prevNote :: "NoteProps option"

section \<open>Engine client (engineClient.ts)\<close>

text \<open>
  Modelled from the spec: \<open>NoteFNamesDict\<close> of common-all, the type of
  \<open>this.noteFnames\<close>, is not among the source files. The spec describes it as
  \<open>fnameIndex: fname \<rightarrow> set of ids\<close>; \<open>add\<close> puts the note's id under the note's fname and
  \<open>delete\<close> takes it away from there.
\<close>

type_synonym NoteFNamesDict = "string \<Rightarrow> string set"

definition NoteFNamesDict_add :: "NoteProps \<Rightarrow> NoteFNamesDict \<Rightarrow> NoteFNamesDict" where
  "NoteFNamesDict_add n d = d(fname n := insert (id' n) (d (fname n)))"

definition NoteFNamesDict_delete :: "NoteProps \<Rightarrow> NoteFNamesDict \<Rightarrow> NoteFNamesDict" where
  "NoteFNamesDict_delete n d = d(fname n := d (fname n) - {id' n})"

text \<open>
  The part of the client's state that \<open>refreshNotesV2\<close> changes: \<open>this.notes\<close>
  (a dictionary from id to note) and \<open>this.noteFnames\<close>. The optional history service and
  the fuse index (\<open>fuseEngine.updateNotesIndex\<close>, outside the source files) are not part
  of the model.
\<close>

record EngineClient =
  notes' :: "string \<rightharpoonup> NoteProps"
  noteFnames :: NoteFNamesDict

text \<open>
  The sort key of a child id in the \<open>update\<close> branch:
  \<open>_.get(this.notes, id, _.find(notes, (ent) => ent.note.id === id)?.note || { title: "foo" }).title\<close>.
  Note ids are plain dictionary keys (uuids or \<open>root\<close>), which \<open>_.get\<close> looks up directly.
\<close>

definition childTitle :: "(string \<rightharpoonup> NoteProps) \<Rightarrow> NoteChangeEntry list \<Rightarrow> string \<Rightarrow> string" where
  "childTitle ns batch cid =
     (case ns cid of
        Some n \<Rightarrow> title n
      | None \<Rightarrow>
          (case find (\<lambda>ent. id' (ent_note ent) = cid) batch of
             Some ent \<Rightarrow> title (ent_note ent)
           | None \<Rightarrow> ''foo''))"

text \<open>
  The body of the \<open>forEach\<close> in \<open>refreshNotesV2\<close>, for one change entry; \<open>batch\<close> is the
  whole array \<open>notes\<close>. \<open>_.sortBy\<close> is a stable ascending sort, as \<open>sort_key\<close> is; titles
  are compared as JavaScript compares strings, code unit by code unit.
\<close>

definition refreshEntry :: "NoteChangeEntry list \<Rightarrow> EngineClient \<Rightarrow> NoteChangeEntry \<Rightarrow> EngineClient" where
  "refreshEntry batch eng ent =
     (let n = ent_note ent; i = id' n in
      if ent_status ent = st_delete then
        eng\<lparr>notes' := (notes' eng)(i := None),
            noteFnames := NoteFNamesDict_delete n (noteFnames eng)\<rparr>
      else
        let eng1 = (if ent_status ent = st_create
                    then eng\<lparr>noteFnames := NoteFNamesDict_add n (noteFnames eng)\<rparr>
                    else eng);
            eng2 = (if ent_status ent = st_update
                      \<and> (map_option fname (ent_prevNote ent) \<noteq> Some (fname n)
                         \<or> map_option id' (ent_prevNote ent) \<noteq> Some (id' n))
                    then eng1\<lparr>noteFnames :=
                           NoteFNamesDict_add n
                             (case ent_prevNote ent of
                                Some p \<Rightarrow> NoteFNamesDict_delete p (noteFnames eng1)
                              | None \<Rightarrow> noteFnames eng1)\<rparr>
                    else eng1);
            n2 = (if ent_status ent = st_update
                  then n\<lparr>children := sort_key (childTitle (notes' eng2) batch) (children n)\<rparr>
                  else n)
        in eng2\<lparr>notes' := (notes' eng2)(i \<mapsto> n2)\<rparr>)"

definition refreshNotesV2 :: "NoteChangeEntry list \<Rightarrow> EngineClient \<Rightarrow> EngineClient" where
  "refreshNotesV2 batch eng = foldl (refreshEntry batch) eng batch"

section \<open>Helpers from outside the modelled files\<close>

text \<open>
  \<open>_.trim(text)\<close> without a character set removes white space from both ends. Strings are
  sequences of 8-bit code units here; the white space among them is tab, line feed,
  vertical tab, form feed, carriage return, space and the no-break space.
\<close>

definition whitespace :: string where
  "whitespace = [CHR 0x09, CHR 0x0A, CHR 0x0B, CHR 0x0C, CHR 0x0D, CHR '' '', CHR 0xA0]"

definition trim :: "string \<Rightarrow> string" where
  "trim s = trimChars s whitespace"

text \<open>
  \<open>path.basename(p, ext)\<close> of Node, POSIX flavour: the last segment of the path, trailing
  slashes ignored, without the extension \<open>ext\<close> when the segment ends with it and is longer
  than it. Given an extension no longer than the path, a path equal to the extension
  yields the empty string. Paths made of slashes only are not distinguished further.
\<close>

definition lastSegment :: "string \<Rightarrow> string" where
  "lastSegment p =
     rev (takeWhile (\<lambda>c. c \<noteq> CHR ''/'') (dropWhile (\<lambda>c. c = CHR ''/'') (rev p)))"

definition path_basename :: "string \<Rightarrow> string \<Rightarrow> string" where
  "path_basename p ext =
     (if ext \<noteq> [] \<and> length ext \<le> length p then
        (if ext = p then []
         else let b = lastSegment p
              in if suffix ext b \<and> b \<noteq> ext then take (length b - length ext) b else b)
      else lastSegment p)"

text \<open>
  Modelled from the spec: \<open>VaultUtils\<close>, \<open>LinkUtils.hasVaultPrefix\<close>,
  \<open>NoteUtils.getNoteByFnameV5\<close> and \<open>NoteUtils.create\<close> of common-all and engine-server
  are called by the doctor service but are not among the source files. The spec identifies
  a vault by name or path and names a note by fname within a vault: a vault's name is its
  \<open>name\<close> when it has one and the last segment of its path otherwise; two vaults are the
  same storage root when their paths agree; a link has a vault prefix when its target
  carries a non-empty vault name (the test \<open>link.to?.vaultName\<close> that
  \<open>getBrokenLinkDestinations\<close> itself makes); a lookup by fname returns the first note of
  the list with that fname, in the given vault when one is given; a created note has the
  given fname and vault and a fresh id. What else \<open>NoteUtils.create\<close> puts into a new
  note (title, body, the \<open>stub\<close> flag, children, links, custom) is not fixed here: it is
  taken from the surroundings, see \<open>createDefaults\<close> below.
\<close>

definition VaultUtils_getName :: "DVault \<Rightarrow> string" where
  "VaultUtils_getName v =
     (case vault_name v of
        Some n \<Rightarrow> if n \<noteq> [] then n else lastSegment (fsPath v)
      | None \<Rightarrow> lastSegment (fsPath v))"

definition VaultUtils_getVaultByName :: "DVault list \<Rightarrow> string \<Rightarrow> DVault option" where
  "VaultUtils_getVaultByName vaults vname = find (\<lambda>v. vname = VaultUtils_getName v) vaults"

definition VaultUtils_isEqual :: "DVault \<Rightarrow> DVault \<Rightarrow> bool" where
  "VaultUtils_isEqual a b = (fsPath a = fsPath b)"

definition LinkUtils_hasVaultPrefix :: "DLink \<Rightarrow> bool" where
  "LinkUtils_hasVaultPrefix link =
     (case link_to link of
        None \<Rightarrow> False
      | Some t \<Rightarrow> (case loc_vaultName t of None \<Rightarrow> False | Some vn \<Rightarrow> vn \<noteq> []))"

definition NoteUtils_getNoteByFnameV5 ::
  "string \<Rightarrow> DVault option \<Rightarrow> NoteProps list \<Rightarrow> NoteProps option" where
  "NoteUtils_getNoteByFnameV5 fn v ns =
     find (\<lambda>ent. fname ent = fn
                \<and> (case v of
                     None \<Rightarrow> True
                   | Some v' \<Rightarrow> (case vault ent of None \<Rightarrow> False
                                 | Some ev \<Rightarrow> VaultUtils_isEqual v' ev))) ns"

text \<open>
  What the doctor service takes from its surroundings without the model looking inside:
  \<open>genUUID\<close> (the \<open>k\<close>-th id handed out), the fields \<open>NoteUtils.create\<close> gives a new
  note of a given fname before id, fname and vault are set, and the two remark passes \<open>RemarkUtils.h1ToTitle\<close> and \<open>RemarkUtils.h1ToH2\<close>, each
  run through \<open>MDUtilsV4.procFull\<close>: a pass returns the note with its new body and the
  change entries it recorded.
\<close>

record Ext =
  genUUID :: "nat \<Rightarrow> string"
  createDefaults :: "string \<Rightarrow> NoteProps"
  h1ToTitle :: "NoteProps \<Rightarrow> NoteProps \<times> NoteChangeEntry list"
  h1ToH2 :: "NoteProps \<Rightarrow> NoteProps \<times> NoteChangeEntry list"

definition NoteUtils_create :: "Ext \<Rightarrow> string \<Rightarrow> string \<Rightarrow> DVault option \<Rightarrow> NoteProps" where
  "NoteUtils_create ext newId fn v = (createDefaults ext fn)\<lparr>id' := newId, fname := fn, vault := v\<rparr>"

section \<open>Doctor service (doctor/service.ts)\<close>

datatype DoctorActionsEnum =
    FIX_FRONTMATTER
  | H1_TO_TITLE
  | HI_TO_H2
  | REMOVE_STUBS
  | CREATE_MISSING_LINKED_NOTES
  | REGENERATE_NOTE_ID
  | FIND_BROKEN_LINKS
  | FIX_REMOTE_VAULTS
  | FIX_AIRTABLE_METADATA
  | ADD_MISSING_DEFAULT_CONFIGS
  | OTHER_ACTION string

text \<open>
  \<open>OTHER_ACTION\<close> stands for a run-time value of \<open>action\<close> outside the enum, which the
  \<open>default\<close> branch of the switch rejects.
\<close>

datatype VaultArg = VaultByName string | VaultObject DVault

record DoctorServiceOpts =
  action :: DoctorActionsEnum
  query :: "string option"
  candidates :: "NoteProps list option"
  limit :: "int option"
  dryRun :: bool
  exit :: "bool option"
  quiet :: bool
  podId :: "string option"
  hierarchy :: "string option"
  vault_opt :: "VaultArg option"

text \<open>
  The engine as the doctor service sees it: \<open>wsRoot\<close>, \<open>vaults\<close>, the notes of the
  dictionary \<open>engine.notes\<close> in the order of \<open>_.values\<close>, and \<open>queryNotesSync\<close> (a fuse
  query, outside the source files) giving the notes that match a query string.
\<close>

record DEngineClient =
  wsRoot :: string
  vaults :: "DVault list"
  engine_notes :: "NoteProps list"
  queryNotesSync :: "string \<Rightarrow> NoteProps list"

subsection \<open>findBrokenLinks\<close>

text \<open>The callback of \<open>_.filter\<close>. Reading \<open>link.to!.fname\<close> of a link without a target throws.\<close>

definition isBrokenLink :: "DEngineClient \<Rightarrow> NoteProps \<Rightarrow> NoteProps list \<Rightarrow> DLink \<Rightarrow> DendronError + bool" where
  "isBrokenLink engine note ns link =
     (if link_type link \<noteq> wiki then Inr False
      else
        let hasVaultPrefix = LinkUtils_hasVaultPrefix link;
            v = (if hasVaultPrefix
                 then (case link_to link of
                         None \<Rightarrow> None
                       | Some t \<Rightarrow> (case loc_vaultName t of
                                      None \<Rightarrow> None
                                    | Some vn \<Rightarrow> VaultUtils_getVaultByName (vaults engine) vn))
                 else None)
        in if hasVaultPrefix \<and> v = None then Inr False
           else
             let isMultiVault = (length (vaults engine) > 1)
             in (case link_to link of
                   None \<Rightarrow> Inl TypeError
                 | Some t \<Rightarrow>
                     let noteExists =
                           NoteUtils_getNoteByFnameV5 (loc_fname t)
                             (if hasVaultPrefix then v else vault note) ns
                     in if hasVaultPrefix then Inr (noteExists = None)
                        else if noteExists = None then Inr (\<not> isMultiVault)
                        else Inr False))"

text \<open>\<open>_.filter\<close> with a callback that may throw: the first exception ends the filter.\<close>

fun filterE :: "('a \<Rightarrow> DendronError + bool) \<Rightarrow> 'a list \<Rightarrow> DendronError + 'a list" where
  "filterE p [] = Inr []"
| "filterE p (x # xs) =
     (case p x of
        Inl e \<Rightarrow> Inl e
      | Inr b \<Rightarrow> (case filterE p xs of
                   Inl e \<Rightarrow> Inl e
                 | Inr ys \<Rightarrow> Inr (if b then x # ys else ys)))"

definition findBrokenLinks :: "NoteProps \<Rightarrow> NoteProps list \<Rightarrow> DEngineClient \<Rightarrow> DendronError + DLink list" where
  "findBrokenLinks note ns engine =
     (if links note = [] then Inr []
      else filterE (isBrokenLink engine note ns) (links note))"

subsection \<open>getBrokenLinkDestinations\<close>

text \<open>The \<open>_.forEach\<close> over the notes, collecting the broken links of each in order.\<close>

fun collectBrokenLinks ::
  "DEngineClient \<Rightarrow> NoteProps list \<Rightarrow> NoteProps list \<Rightarrow> DLink list \<Rightarrow> DendronError + DLink list" where
  "collectBrokenLinks engine ns [] brokenWikiLinks = Inr brokenWikiLinks"
| "collectBrokenLinks engine ns (note # rest) brokenWikiLinks =
     (if links note = [] then collectBrokenLinks engine ns rest brokenWikiLinks
      else (case findBrokenLinks note ns engine of
              Inl e \<Rightarrow> Inl e
            | Inr brokenLinks \<Rightarrow>
                collectBrokenLinks engine ns rest (brokenWikiLinks @ brokenLinks)))"

text \<open>
  \<open>_.uniqBy(array, iteratee)\<close>: the first element of every key, in order; \<open>seen\<close> holds the
  keys met so far.
\<close>

fun uniqByFrom :: "('a \<Rightarrow> 'k) \<Rightarrow> 'k list \<Rightarrow> 'a list \<Rightarrow> 'a list" where
  "uniqByFrom f seen [] = []"
| "uniqByFrom f seen (x # xs) =
     (if f x \<in> set seen then uniqByFrom f seen xs
      else x # uniqByFrom f (f x # seen) xs)"

definition uniqBy :: "('a \<Rightarrow> 'k) \<Rightarrow> 'a list \<Rightarrow> 'a list" where
  "uniqBy f xs = uniqByFrom f [] xs"

text \<open>The key \<open>to.fname\<close> of a link: absent when the link has no target.\<close>

definition to_fname :: "DLink \<Rightarrow> string option" where
  "to_fname link = map_option loc_fname (link_to link)"

text \<open>
  The callback of \<open>_.map\<close>: the destination vault is looked up by the target's vault name
  when the target has one, by the source's vault name otherwise, and may stay undefined.
  \<open>newId\<close> is the id that \<open>NoteUtils.create\<close> draws for the note.
\<close>

definition destinationNote :: "Ext \<Rightarrow> DEngineClient \<Rightarrow> string \<Rightarrow> DLink \<Rightarrow> DendronError + NoteProps" where
  "destinationNote ext engine newId link =
     (let destVault =
            (if LinkUtils_hasVaultPrefix link
             then (case link_to link of
                     None \<Rightarrow> None
                   | Some t \<Rightarrow> (case loc_vaultName t of
                                  None \<Rightarrow> None
                                | Some vn \<Rightarrow> VaultUtils_getVaultByName (vaults engine) vn))
             else (case loc_vaultName (link_from link) of
                     None \<Rightarrow> None
                   | Some vn \<Rightarrow> VaultUtils_getVaultByName (vaults engine) vn))
      in case link_to link of
           None \<Rightarrow> Inl TypeError
         | Some t \<Rightarrow> Inr (NoteUtils_create ext newId (loc_fname t) destVault))"

fun destinationNotes ::
  "Ext \<Rightarrow> DEngineClient \<Rightarrow> nat \<Rightarrow> DLink list \<Rightarrow> DendronError + (NoteProps list \<times> nat)" where
  "destinationNotes ext engine k [] = Inr ([], k)"
| "destinationNotes ext engine k (link # rest) =
     (case destinationNote ext engine (genUUID ext k) link of
        Inl e \<Rightarrow> Inl e
      | Inr n \<Rightarrow> (case destinationNotes ext engine (Suc k) rest of
                   Inl e \<Rightarrow> Inl e
                 | Inr (ns, k') \<Rightarrow> Inr (n # ns, k')))"

text \<open>\<open>k\<close> counts the ids drawn from \<open>genUUID\<close> so far; the new count is returned.\<close>

definition getBrokenLinkDestinations ::
  "Ext \<Rightarrow> NoteProps list \<Rightarrow> DEngineClient \<Rightarrow> nat \<Rightarrow> DendronError + (NoteProps list \<times> nat)" where
  "getBrokenLinkDestinations ext ns engine k =
     (case collectBrokenLinks engine ns ns [] of
        Inl e \<Rightarrow> Inl e
      | Inr brokenWikiLinks \<Rightarrow> destinationNotes ext engine k (uniqBy to_fname brokenWikiLinks))"

subsection \<open>executeDoctorActions\<close>

text \<open>
  The calls the service makes on the engine, in order. \<open>engine.writeNote\<close>,
  \<open>engine.deleteNote\<close> and \<open>engine.getNoteByPath\<close> reach the API server, which is not
  among the source files: the model records each call with the note it is given.
  Every call is awaited before the next one is made, so the throttle wrappers pass each
  call on.
\<close>

datatype EngineCall =
    WriteNote NoteProps
  | DeleteNote NoteProps
  | GetNoteByPath string "DVault option"

record BrokenLinkReport =
  rep_file :: string
  rep_vault :: string
  rep_links :: "(string \<times> (nat \<times> nat) option) list"

text \<open>
  The variables a run changes: \<open>numChanges\<close>, the engine calls made, \<open>resp\<close>, the
  number of ids drawn from \<open>genUUID\<close>, and the notes \<open>doctorAction\<close> was called on.
\<close>

record DoctorState =
  numChanges :: nat
  calls :: "EngineCall list"
  resp :: "BrokenLinkReport list option"
  uuids :: nat
  applied :: "NoteProps list"

definition engineWrite :: "bool \<Rightarrow> NoteProps \<Rightarrow> DoctorState \<Rightarrow> DoctorState" where
  "engineWrite dry n st = (if dry then st else st\<lparr>calls := calls st @ [WriteNote n]\<rparr>)"

definition engineDelete :: "bool \<Rightarrow> NoteProps \<Rightarrow> DoctorState \<Rightarrow> DoctorState" where
  "engineDelete dry n st = (if dry then st else st\<lparr>calls := calls st @ [DeleteNote n]\<rparr>)"

definition engineGetNoteByPath :: "bool \<Rightarrow> string \<Rightarrow> DVault option \<Rightarrow> DoctorState \<Rightarrow> DoctorState" where
  "engineGetNoteByPath dry npath v st =
     (if dry then st else st\<lparr>calls := calls st @ [GetNoteByPath npath v]\<rparr>)"

definition engine_writeNote :: "NoteProps \<Rightarrow> DoctorState \<Rightarrow> DoctorState" where
  "engine_writeNote n st = st\<lparr>calls := calls st @ [WriteNote n]\<rparr>"

text \<open>
  A \<open>doctorAction\<close>: from the note and the state to the note as the action leaves it and
  the new state, or to the exception thrown and the state reached by then.
\<close>

type_synonym DoctorAction =
  "NoteProps \<Rightarrow> DoctorState \<Rightarrow> (DendronError \<times> DoctorState) + (NoteProps \<times> DoctorState)"

definition h1ToTitleAction :: "Ext \<Rightarrow> bool \<Rightarrow> DoctorAction" where
  "h1ToTitleAction ext dry note st =
     (case h1ToTitle ext note of
        (note', changes) \<Rightarrow>
          if changes \<noteq> []
          then Inr (note', (engineWrite dry note' st)\<lparr>numChanges := numChanges st + 1\<rparr>)
          else Inr (note', st))"

definition h1ToH2Action :: "Ext \<Rightarrow> bool \<Rightarrow> DoctorAction" where
  "h1ToH2Action ext dry note st =
     (case h1ToH2 ext note of
        (note', changes) \<Rightarrow>
          if changes \<noteq> []
          then Inr (note', (engineWrite dry note' st)\<lparr>numChanges := numChanges st + 1\<rparr>)
          else Inr (note', st))"

definition removeStubsAction :: "bool \<Rightarrow> DoctorAction" where
  "removeStubsAction dry note st =
     (let changes = (if trim (body note) = []
                     then [\<lparr>ent_status = st_delete, ent_note = note, ent_prevNote = None\<rparr>]
                     else [])
      in if changes \<noteq> [] then
           let st1 = engineDelete dry note st
           in (case vault note of
                 None \<Rightarrow> Inl (TypeError, st1)
               | Some v \<Rightarrow> Inr (note, st1\<lparr>numChanges := numChanges st1 + 1\<rparr>))
         else Inr (note, st))"

definition createMissingLinkedNotesAction :: "bool \<Rightarrow> DoctorAction" where
  "createMissingLinkedNotesAction dry note st =
     (let st1 = engineGetNoteByPath dry (fname note) (vault note) st
      in Inr (note, st1\<lparr>numChanges := numChanges st1 + 1\<rparr>))"

definition regenerateNoteIdAction :: "Ext \<Rightarrow> DoctorAction" where
  "regenerateNoteIdAction ext note st =
     (if id' note = ''root'' then Inr (note, st)
      else
        let note' = note\<lparr>id' := genUUID ext (uuids st)\<rparr>;
            st1 = engine_writeNote note' (st\<lparr>uuids := Suc (uuids st)\<rparr>)
        in Inr (note', st1\<lparr>numChanges := numChanges st1 + 1\<rparr>))"

definition findBrokenLinksAction :: "DEngineClient \<Rightarrow> NoteProps list \<Rightarrow> DoctorAction" where
  "findBrokenLinksAction engine ns note st =
     (case findBrokenLinks note ns engine of
        Inl e \<Rightarrow> Inl (e, st)
      | Inr brokenLinks \<Rightarrow>
          if length brokenLinks > 0 then
            (case vault note of
               None \<Rightarrow> Inl (TypeError, st)
             | Some v \<Rightarrow>
                 Inr (note,
                      st\<lparr>resp := map_option
                             (\<lambda>r. r @ [\<lparr>rep_file = fname note,
                                         rep_vault = VaultUtils_getName v,
                                         rep_links = map (\<lambda>link. (link_value link, link_position link))
                                                       brokenLinks\<rparr>])
                             (resp st)\<rparr>))
          else Inr (note, st))"

text \<open>\<open>{ ...obj, [k]: v }\<close>: the key keeps its place when present and is added last otherwise.\<close>

fun objSet :: "string \<Rightarrow> JSVal \<Rightarrow> (string \<times> JSVal) list \<Rightarrow> (string \<times> JSVal) list" where
  "objSet k v [] = [(k, v)]"
| "objSet k v ((k', v') # kvs) = (if k' = k then (k, v) # kvs else (k', v') # objSet k v kvs)"

definition objGet :: "(string \<times> JSVal) list \<Rightarrow> string \<Rightarrow> JSVal" where
  "objGet kvs k = (case map_of kvs k of None \<Rightarrow> JUndefined | Some v \<Rightarrow> v)"

definition truthy :: "JSVal \<Rightarrow> bool" where
  "truthy v = (case v of JUndefined \<Rightarrow> False | JStr s \<Rightarrow> s \<noteq> [] | JObj kvs \<Rightarrow> True)"

definition fixAirtableMetadataAction :: "string \<Rightarrow> DoctorAction" where
  "fixAirtableMetadataAction pod note st =
     (let airtableId = objGet (custom note) ''airtableId'';
          pods = JObj [(''airtable'', JObj [(pod, airtableId)])];
          custom1 = filter (\<lambda>kv. fst kv \<noteq> ''airtableId'') (custom note);
          updatedNote = note\<lparr>custom := objSet ''pods'' pods custom1\<rparr>
      in Inr (note\<lparr>custom := custom1\<rparr>, engine_writeNote updatedNote st))"

text \<open>
  The loop \<open>for (const note of notes)\<close>: it stops before a note once \<open>numChanges\<close> has
  reached \<open>limit\<close>; an action that has been started runs to its end. The result holds the
  notes of the list as the run leaves them.
\<close>

fun doctorLoop ::
  "DoctorAction \<Rightarrow> int \<Rightarrow> NoteProps list \<Rightarrow> DoctorState
     \<Rightarrow> (DendronError \<times> DoctorState) + (NoteProps list \<times> DoctorState)" where
  "doctorLoop act lim [] st = Inr ([], st)"
| "doctorLoop act lim (note # rest) st =
     (if int (numChanges st) \<ge> lim then Inr (note # rest, st)
      else (case act note (st\<lparr>applied := applied st @ [note]\<rparr>) of
              Inl err \<Rightarrow> Inl err
            | Inr (note', st') \<Rightarrow>
                (case doctorLoop act lim rest st' of
                   Inl err \<Rightarrow> Inl err
                 | Inr (rest', st'') \<Rightarrow> Inr (note' # rest', st''))))"

record DoctorResult =
  res_exit :: bool
  res_resp :: "BrokenLinkReport list option"
  res_notes :: "NoteProps list"
  res_state :: DoctorState

definition runDoctorAction ::
  "DoctorAction \<Rightarrow> int \<Rightarrow> bool \<Rightarrow> NoteProps list \<Rightarrow> DoctorState
     \<Rightarrow> (DendronError \<times> DoctorState) + DoctorResult" where
  "runDoctorAction act lim ex ns st =
     (case doctorLoop act lim ns st of
        Inl err \<Rightarrow> Inl err
      | Inr (ns', st') \<Rightarrow>
          Inr \<lparr>res_exit = ex, res_resp = resp st', res_notes = ns', res_state = st'\<rparr>)"

text \<open>
  \<open>executeDoctorActions\<close>; \<open>k\<close> is the number of ids drawn from \<open>genUUID\<close> before the
  run. \<open>limit\<close> is a count and is modelled as an integer. The three actions that do not
  run per note return before the loop: what they do goes through \<open>DConfig\<close>,
  \<open>ConfigUtils\<close>, \<open>Git\<close> and \<open>WorkspaceService\<close> and touches no note.
\<close>

definition podIdMessage :: string where
  "podIdMessage = ''Please provide the pod Id that was used to export the note(s).''"

definition hierarchyAndVaultMessage :: string where
  "hierarchyAndVaultMessage =
     ''Please provide the hierarchy(with --query arg) and vault(--vault) of notes you would like to update with new Airtable Metadata''"

definition unexpectedActionMessage :: string where
  "unexpectedActionMessage =
     ''Unexpected Doctor action. If this is something Dendron should support, please create an issue on our Github repository.''"

definition executeDoctorActions ::
  "Ext \<Rightarrow> DoctorServiceOpts \<Rightarrow> DEngineClient \<Rightarrow> nat
     \<Rightarrow> (DendronError \<times> DoctorState) + DoctorResult" where
  "executeDoctorActions ext opts engine k =
     (let lim = (case limit opts of None \<Rightarrow> 99999 | Some l \<Rightarrow> l);
          ex = (case exit opts of None \<Rightarrow> True | Some e \<Rightarrow> e);
          ns0 = (case candidates opts of
                   None \<Rightarrow> (case query opts of
                              None \<Rightarrow> engine_notes engine
                            | Some q \<Rightarrow> if q \<noteq> [] then queryNotesSync engine q
                                        else engine_notes engine)
                 | Some c \<Rightarrow> c);
          ns = filter (\<lambda>n. \<not> stub n) ns0;
          st0 = \<lparr>numChanges = 0, calls = [], resp = None, uuids = k, applied = []\<rparr>;
          early = (\<lambda>e. Inr \<lparr>res_exit = e, res_resp = None, res_notes = ns, res_state = st0\<rparr>)
      in case action opts of
           ADD_MISSING_DEFAULT_CONFIGS \<Rightarrow> early True
         | FIX_FRONTMATTER \<Rightarrow> early ex
         | H1_TO_TITLE \<Rightarrow> runDoctorAction (h1ToTitleAction ext (dryRun opts)) lim ex ns st0
         | HI_TO_H2 \<Rightarrow> runDoctorAction (h1ToH2Action ext (dryRun opts)) lim ex ns st0
         | REMOVE_STUBS \<Rightarrow> runDoctorAction (removeStubsAction (dryRun opts)) lim ex ns st0
         | CREATE_MISSING_LINKED_NOTES \<Rightarrow>
             (case getBrokenLinkDestinations ext ns engine k of
                Inl e \<Rightarrow> Inl (e, st0)
              | Inr (dests, k') \<Rightarrow>
                  runDoctorAction (createMissingLinkedNotesAction (dryRun opts)) lim ex dests
                    (st0\<lparr>uuids := k'\<rparr>))
         | REGENERATE_NOTE_ID \<Rightarrow> runDoctorAction (regenerateNoteIdAction ext) lim ex ns st0
         | FIND_BROKEN_LINKS \<Rightarrow>
             runDoctorAction (findBrokenLinksAction engine ns) lim ex ns (st0\<lparr>resp := Some []\<rparr>)
         | FIX_REMOTE_VAULTS \<Rightarrow> early True
         | FIX_AIRTABLE_METADATA \<Rightarrow>
             (case podId opts of
                None \<Rightarrow> Inl (InvalidState podIdMessage, st0)
              | Some pod \<Rightarrow>
                  if pod = [] then Inl (InvalidState podIdMessage, st0)
                  else
                    let selectedVault =
                          (case vault_opt opts of
                             None \<Rightarrow> None
                           | Some (VaultByName vn) \<Rightarrow> VaultUtils_getVaultByName (vaults engine) vn
                           | Some (VaultObject v) \<Rightarrow> Some v);
                        selectedHierarchy =
                          (case query opts of None \<Rightarrow> hierarchy opts | Some q \<Rightarrow> Some q)
                    in (case (selectedHierarchy, selectedVault) of
                          (Some h, Some sv) \<Rightarrow>
                            if h = [] then Inl (InvalidState hierarchyAndVaultMessage, st0)
                            else
                              let ns' = filter (\<lambda>value. prefix h (fname value)
                                                  \<and> stub value \<noteq> True
                                                  \<and> (case vault value of
                                                       None \<Rightarrow> False
                                                     | Some nv \<Rightarrow> VaultUtils_isEqual nv sv)
                                                  \<and> truthy (objGet (custom value) ''airtableId'')) ns
                              in runDoctorAction (fixAirtableMetadataAction pod) lim ex ns' st0
                        | _ \<Rightarrow> Inl (InvalidState hierarchyAndVaultMessage, st0)))
         | OTHER_ACTION a \<Rightarrow> Inl (DendronErr unexpectedActionMessage, st0))"

text \<open>The state a step, a loop or a run ends in, whether it returns or throws.\<close>

fun endState :: "('e \<times> DoctorState) + ('a \<times> DoctorState) \<Rightarrow> DoctorState" where
  "endState (Inl (e, st)) = st"
| "endState (Inr (x, st)) = st"


fun finalState :: "(DendronError \<times> DoctorState) + DoctorResult \<Rightarrow> DoctorState" where
  "finalState (Inl (e, st)) = st"
| "finalState (Inr r) = res_state r"

text \<open>The paths of the \<open>getNoteByPath\<close> requests among the engine calls of a run.\<close>

fun requestedPaths :: "EngineCall list \<Rightarrow> string list" where
  "requestedPaths [] = []"
| "requestedPaths (GetNoteByPath npath v # cs) = npath # requestedPaths cs"
| "requestedPaths (c # cs) = requestedPaths cs"

section \<open>Note references (utils.ts)\<close>

subsection \<open>Strings and numbers of JavaScript\<close>

text \<open>
  Strings are sequences of code units below 256, read as Latin-1. \<open>toLowerCase\<close> maps
  \<open>A\<close>-\<open>Z\<close> and the upper-case letters \<open>0xC0\<close>-\<open>0xDE\<close> (without the multiplication sign
  \<open>0xD7\<close>) to the letter 32 places further on.
\<close>

definition toLowerChar :: "char \<Rightarrow> char" where
  "toLowerChar c =
     (let n = (of_char c :: nat)
      in if (65 \<le> n \<and> n \<le> 90) \<or> (192 \<le> n \<and> n \<le> 222 \<and> n \<noteq> 215)
         then char_of (n + 32) else c)"

definition toLower :: "string \<Rightarrow> string" where
  "toLower s = map toLowerChar s"

text \<open>
  A number as the reference syntax uses it: an integer offset, or \<open>NaN\<close> (what
  \<open>parseInt\<close> answers without digits). An integer prints in plain decimal digits below
  \<open>10^21\<close> in absolute value; the model prints every integer so.
\<close>

datatype JSNumber = NaN | JInt int

fun digitsOf :: "nat \<Rightarrow> string" where
  "digitsOf n = (if n < 10 then [char_of (48 + n)]
                 else digitsOf (n div 10) @ [char_of (48 + n mod 10)])"

definition numberToString :: "JSNumber \<Rightarrow> string" where
  "numberToString x =
     (case x of
        NaN \<Rightarrow> ''NaN''
      | JInt k \<Rightarrow> if k < 0 then CHR ''-'' # digitsOf (nat (- k)) else digitsOf (nat k))"

definition isDigit :: "char \<Rightarrow> bool" where
  "isDigit c = (48 \<le> (of_char c :: nat) \<and> (of_char c :: nat) \<le> 57)"

definition digitsValue :: "string \<Rightarrow> nat" where
  "digitsValue ds = foldl (\<lambda>acc c. 10 * acc + ((of_char c :: nat) - 48)) 0 ds"

text \<open>
  \<open>parseInt(s, 10)\<close>: leading white space is skipped, a sign is read, then the longest
  run of decimal digits; without a digit the answer is \<open>NaN\<close>.
\<close>

definition parseInt :: "string \<Rightarrow> JSNumber" where
  "parseInt s =
     (let s1 = dropWhile (\<lambda>c. c \<in> set whitespace) s;
          neg = (case s1 of [] \<Rightarrow> False | c # r \<Rightarrow> c = CHR ''-'');
          s2 = (case s1 of [] \<Rightarrow> [] | c # r \<Rightarrow> if c = CHR ''-'' \<or> c = CHR ''+'' then r else s1);
          ds = takeWhile isDigit s2
      in if ds = [] then NaN
         else JInt (if neg then - int (digitsValue ds) else int (digitsValue ds)))"

text \<open>\<open>s.split(c)\<close> for a one-character separator, and \<open>parts.join(c)\<close>.\<close>

fun splitOn :: "char \<Rightarrow> string \<Rightarrow> string list" where
  "splitOn c [] = [[]]"
| "splitOn c (x # xs) =
     (if x = c then [] # splitOn c xs
      else (case splitOn c xs of
              [] \<Rightarrow> [[x]]
            | y # ys \<Rightarrow> (x # y) # ys))"

fun joinWith :: "char \<Rightarrow> string list \<Rightarrow> string" where
  "joinWith c [] = []"
| "joinWith c [p] = p"
| "joinWith c (p # q # ps) = p @ c # joinWith c (q # ps)"

subsection \<open>Data\<close>

text \<open>
  \<open>DNoteRefData\<close> and \<open>DNoteRefLink\<close> of common-all, with the fields the two functions
  use. The \<open>type\<close> fields are constant (\<open>file\<close> and \<open>ref\<close>) and left out.
\<close>

record DNoteRefData =
  anchorStart :: "string option"
  anchorEnd :: "string option"
  anchorStartOffset :: "JSNumber option"

record DNoteRefLink =
  ref_from :: DNoteLoc
  ref_data :: DNoteRefData

record RefLinkOpts =
  includeParen :: bool
  includeRefTag :: "bool option"

subsection \<open>refLink2String\<close>

definition normalize :: "string \<Rightarrow> string" where
  "normalize s = toLower (trimChars s '' #'')"

text \<open>Truth of an optional string and of an optional number in a condition.\<close>

definition truthyString :: "string option \<Rightarrow> bool" where
  "truthyString s = (case s of None \<Rightarrow> False | Some v \<Rightarrow> v \<noteq> [])"

definition truthyNumber :: "JSNumber option \<Rightarrow> bool" where
  "truthyNumber x = (case x of None \<Rightarrow> False | Some NaN \<Rightarrow> False | Some (JInt k) \<Rightarrow> k \<noteq> 0)"

definition refLink2String :: "DNoteRefLink \<Rightarrow> RefLinkOpts option \<Rightarrow> string" where
  "refLink2String link opts =
     (let cleanOpts_includeParen = (case opts of None \<Rightarrow> False | Some o1 \<Rightarrow> includeParen o1);
          cleanOpts_includeRefTag =
            (case opts of
               None \<Rightarrow> False
             | Some o1 \<Rightarrow> (case includeRefTag o1 of None \<Rightarrow> False | Some b \<Rightarrow> b));
          d = ref_data link;
          name = loc_fname (ref_from link);
          linkParts = [''[['' @ name @ '']]''];
          linkParts = (if truthyString (anchorStart d)
                       then linkParts @ [CHR ''#'' # normalize (the (anchorStart d))]
                       else linkParts);
          linkParts = (if truthyNumber (anchorStartOffset d)
                       then linkParts @ [CHR '','' # numberToString (the (anchorStartOffset d))]
                       else linkParts);
          linkParts = (if truthyString (anchorEnd d)
                       then linkParts @ ['':#'' @ normalize (the (anchorEnd d))]
                       else linkParts);
          linkParts = (if cleanOpts_includeRefTag then ''ref: '' # linkParts else linkParts);
          linkParts = (if cleanOpts_includeParen then [''((''] @ linkParts @ [''))''] else linkParts)
      in concat linkParts)"

subsection \<open>parseFileLink and parseDendronRef\<close>

text \<open>
  The regular expression of \<open>parseFileLink\<close> is
  \<open>\[\[(?<name>([^\]:]+))\]\]((#?(?<anchorStart>([^\]:]+))(:#(?<anchorEnd>([^\]:]+)))?))?\<close>.
  A character of a name is any character but \<open>]\<close> and \<open>:\<close>. The quantifiers are greedy
  and the tail of the expression is optional, so each run of name characters is taken
  whole; \<open>#?\<close> gives its \<open>#\<close> back only when no name character follows it.
\<close>

definition isNameChar :: "char \<Rightarrow> bool" where
  "isNameChar c = (c \<noteq> CHR '']'' \<and> c \<noteq> CHR '':'')"

text \<open>The optional group after \<open>]]\<close>: the values of \<open>anchorStart\<close> and \<open>anchorEnd\<close>.\<close>

definition matchAnchors :: "string \<Rightarrow> string option \<times> string option" where
  "matchAnchors r =
     (let r1 = (case r of
                  [] \<Rightarrow> r
                | c # cs \<Rightarrow> if c = CHR ''#'' \<and> takeWhile isNameChar cs \<noteq> [] then cs else r);
          a = takeWhile isNameChar r1;
          r2 = dropWhile isNameChar r1
      in if a = [] then (None, None)
         else (Some a,
               (case r2 of
                  c1 # c2 # cs \<Rightarrow>
                    if c1 = CHR '':'' \<and> c2 = CHR ''#'' \<and> takeWhile isNameChar cs \<noteq> []
                    then Some (takeWhile isNameChar cs) else None
                | _ \<Rightarrow> None)))"

text \<open>A match that starts at the first character: the groups \<open>name\<close>, \<open>anchorStart\<close>, \<open>anchorEnd\<close>.\<close>

definition matchHere :: "string \<Rightarrow> (string \<times> string option \<times> string option) option" where
  "matchHere s =
     (case s of
        c1 # c2 # rest \<Rightarrow>
          if c1 = CHR ''['' \<and> c2 = CHR ''[''
          then (let name = takeWhile isNameChar rest;
                    after = dropWhile isNameChar rest
                in if name \<noteq> [] \<and> take 2 after = '']]''
                   then Some (name, matchAnchors (drop 2 after))
                   else None)
          else None
      | _ \<Rightarrow> None)"

text \<open>\<open>reLink.exec(ref)?.groups\<close>: the leftmost match.\<close>

fun reLink_exec :: "string \<Rightarrow> (string \<times> string option \<times> string option) option" where
  "reLink_exec [] = None"
| "reLink_exec (c # cs) =
     (case matchHere (c # cs) of
        Some g \<Rightarrow> Some g
      | None \<Rightarrow> reLink_exec cs)"

definition parseFileLink :: "string \<Rightarrow> DendronError + DNoteRefLink" where
  "parseFileLink r =
     (case reLink_exec r of
        None \<Rightarrow> Inl (DendronErr (''fname for '' @ r @ '' is undefined''))
      | Some (name, aStart, aEnd) \<Rightarrow>
          let fn = path_basename name ''.md'';
              clean = \<lparr>anchorStart = aStart, anchorEnd = aEnd, anchorStartOffset = None\<rparr>;
              clean = (case aStart of
                         None \<Rightarrow> clean
                       | Some a \<Rightarrow>
                           if a \<noteq> [] \<and> CHR '','' \<in> set a
                           then (case splitOn (CHR '','') a of
                                   p # q # ps \<Rightarrow>
                                     clean\<lparr>anchorStart := Some p,
                                           anchorStartOffset := Some (parseInt q)\<rparr>
                                 | _ \<Rightarrow> clean)
                           else clean)
          in Inr \<lparr>ref_from = \<lparr>loc_fname = fn, loc_vaultName = None\<rparr>, ref_data = clean\<rparr>)"

definition parseLink :: "string \<Rightarrow> DendronError + DNoteRefLink" where
  "parseLink r =
     (if CHR '']'' \<in> set r then parseFileLink r
      else Inl (JsError (''parseLink, non-file link, not implemented, '' @ r)))"

text \<open>The result \<open>{ direction, link }\<close> as a pair; the direction is the string \<open>to\<close>.\<close>

definition parseDendronRef :: "string \<Rightarrow> DendronError + (string \<times> DNoteRefLink)" where
  "parseDendronRef r =
     (case splitOn (CHR '':'') (trim r) of
        [] \<Rightarrow> Inl (JsError (''parse non ref not implemented, ref: '' @ r))
      | idOrRef # rest \<Rightarrow>
          let cleanArgs = trim (joinWith (CHR '':'') rest)
          in if idOrRef = ''ref''
             then (case parseLink cleanArgs of
                     Inl e \<Rightarrow> Inl e
                   | Inr link \<Rightarrow> Inr (''to'', link))
             else Inl (JsError (''parse non ref not implemented, ref: '' @ r)))"

section \<open>Example data\<close>

text \<open>
  A workspace with one vault and stand-ins for the surroundings of the doctor service:
  ids \<open>uuid-\<close>, \<open>uuid-i\<close>, \<open>uuid-ii\<close>, ..., remark passes that find nothing to change, and
  new notes as the spec describes a note created for a link target: a stub with an empty
  body and the fname as title.
\<close>

definition exampleExt :: Ext where
  "exampleExt =
     \<lparr>genUUID = (\<lambda>k. ''uuid-'' @ replicate k (CHR ''i'')),
      createDefaults =
        (\<lambda>f. \<lparr>id' = [], fname = f, vault = None, title = f, body = [], stub = True,
               children = [], links = [], custom = []\<rparr>),
      h1ToTitle = (\<lambda>n. (n, [])), h1ToH2 = (\<lambda>n. (n, []))\<rparr>"

definition exampleVault :: DVault where
  "exampleVault = \<lparr>fsPath = ''vault1'', vault_name = None\<rparr>"

definition exampleEngine :: DEngineClient where
  "exampleEngine =
     \<lparr>wsRoot = ''/ws'', vaults = [exampleVault], engine_notes = [], queryNotesSync = (\<lambda>q. [])\<rparr>"

definition exampleOpts :: "DoctorActionsEnum \<Rightarrow> NoteProps list \<Rightarrow> int option \<Rightarrow> DoctorServiceOpts" where
  "exampleOpts a cs l =
     \<lparr>action = a, query = None, candidates = Some cs, limit = l, dryRun = False,
      exit = None, quiet = True, podId = Some ''pod1'', hierarchy = Some ''proj'',
      vault_opt = Some (VaultByName ''vault1'')\<rparr>"

text \<open>A note of the example vault with the given id, fname and body.\<close>

definition exampleNote :: "string \<Rightarrow> string \<Rightarrow> string \<Rightarrow> NoteProps" where
  "exampleNote i f b =
     \<lparr>id' = i, fname = f, vault = Some exampleVault, title = f, body = b, stub = False,
      children = [], links = [], custom = []\<rparr>"

text \<open>A wiki link without vault prefix from the note \<open>src\<close> to the fname \<open>dst\<close>.\<close>

definition exampleLink :: "string \<Rightarrow> string \<Rightarrow> DLink" where
  "exampleLink src dst =
     \<lparr>link_type = wiki, link_value = dst,
      link_from = \<lparr>loc_fname = src, loc_vaultName = Some ''vault1''\<rparr>,
      link_to = Some \<lparr>loc_fname = dst, loc_vaultName = None\<rparr>, link_position = None\<rparr>"

text \<open>A note with the given id, fname, title and children and nothing else, for examples.\<close>

definition plainNote :: "string \<Rightarrow> string \<Rightarrow> string \<Rightarrow> string list \<Rightarrow> NoteProps" where
  "plainNote i f t cs =
     \<lparr>id' = i, fname = f, vault = None, title = t, body = [], stub = False,
      children = cs, links = [], custom = []\<rparr>"

section \<open>Properties of normalizev2\<close>

lemma trimChars_no_leading:
  "trimChars text chars \<noteq> [] \<Longrightarrow> hd (trimChars text chars) \<notin> set chars"
proof -
  assume ne: "trimChars text chars \<noteq> []"
  let ?P = "\<lambda>c. c \<in> set chars"
  let ?d = "dropWhile ?P text"
  have "trimChars text chars = rev (dropWhile ?P (rev ?d))" by (simp add: trimChars_def)
  with ne have d_ne: "?d \<noteq> []" by (metis dropWhile.simps(1) rev.simps(1))
  then have hd_d: "\<not> ?P (hd ?d)" by (metis hd_dropWhile)
  have "\<exists>ys. ?d = trimChars text chars @ ys"
    unfolding trimChars_def
    by (metis rev_append rev_rev_ident takeWhile_dropWhile_id)
  then obtain ys where "?d = trimChars text chars @ ys" ..
  with ne have "hd ?d = hd (trimChars text chars)" by (metis hd_append2)
  with hd_d show ?thesis by simp
qed

lemma trimChars_no_trailing:
  "trimChars text chars \<noteq> [] \<Longrightarrow> last (trimChars text chars) \<notin> set chars"
proof -
  assume ne: "trimChars text chars \<noteq> []"
  let ?P = "\<lambda>c. c \<in> set chars"
  let ?r = "dropWhile ?P (rev (dropWhile ?P text))"
  have r_ne: "?r \<noteq> []" using ne by (simp add: trimChars_def)
  then have "\<not> ?P (hd ?r)" by (metis hd_dropWhile)
  moreover have "last (trimChars text chars) = hd ?r"
    using r_ne by (simp add: trimChars_def last_rev)
  ultimately show ?thesis by simp
qed

lemma trimChars_decomp:
  "\<exists>pre post. text = pre @ trimChars text chars @ post
     \<and> set pre \<subseteq> set chars \<and> set post \<subseteq> set chars"
proof -
  let ?P = "\<lambda>c. c \<in> set chars"
  let ?d = "dropWhile ?P text"
  let ?pre = "takeWhile ?P text"
  let ?post = "rev (takeWhile ?P (rev ?d))"
  have 1: "text = ?pre @ ?d" by simp
  have "rev ?d = takeWhile ?P (rev ?d) @ dropWhile ?P (rev ?d)" by simp
  then have "?d = rev (dropWhile ?P (rev ?d)) @ ?post"
    by (metis rev_append rev_rev_ident)
  then have 2: "?d = trimChars text chars @ ?post" by (simp add: trimChars_def)
  have 3: "set ?pre \<subseteq> set chars" by (auto dest: set_takeWhileD)
  have 4: "set ?post \<subseteq> set chars" by (auto dest: set_takeWhileD)
  from 1 2 have "text = ?pre @ trimChars text chars @ ?post" by metis
  with 3 4 show ?thesis by blast
qed

text \<open>
  C8. \<open>normalizev2\<close> first strips the surrounding spaces and \<open>#\<close> characters of the anchor
  text: the stripped text \<open>u\<close> is the input without a prefix and a suffix made of these two
  characters only, and neither starts nor ends with one of them. When \<open>u\<close> is exactly
  \<open>*\<close> it is returned as it is and the slugger is not used; otherwise the result is what
  the slugger makes of \<open>u\<close>.
\<close>

theorem C8_normalizev2:
  fixes slug :: "'s \<Rightarrow> string \<Rightarrow> string \<times> 's" and anchor :: string and slugger :: "'s"
  shows "(\<exists>pre post. anchor = pre @ trimChars anchor '' #'' @ post
            \<and> set pre \<subseteq> {CHR '' '', CHR ''#''} \<and> set post \<subseteq> {CHR '' '', CHR ''#''})
         \<and> (trimChars anchor '' #'' \<noteq> [] \<longrightarrow>
               hd (trimChars anchor '' #'') \<notin> {CHR '' '', CHR ''#''}
             \<and> last (trimChars anchor '' #'') \<notin> {CHR '' '', CHR ''#''})
         \<and> normalizev2 slug anchor slugger =
             (if trimChars anchor '' #'' = ''*'' then (''*'', slugger)
              else slug slugger (trimChars anchor '' #''))"
proof -
  let ?u = "trimChars anchor '' #''"
  have a: "\<exists>pre post. anchor = pre @ ?u @ post
            \<and> set pre \<subseteq> {CHR '' '', CHR ''#''} \<and> set post \<subseteq> {CHR '' '', CHR ''#''}"
    using trimChars_decomp [of anchor "'' #''"] by simp
  have b: "?u \<noteq> [] \<longrightarrow> hd ?u \<notin> {CHR '' '', CHR ''#''} \<and> last ?u \<notin> {CHR '' '', CHR ''#''}"
    using trimChars_no_leading [of anchor "'' #''"] trimChars_no_trailing [of anchor "'' #''"]
    by simp
  have c: "normalizev2 slug anchor slugger =
             (if ?u = ''*'' then (''*'', slugger) else slug slugger ?u)"
    unfolding normalizev2_def by (simp add: Let_def)
  from a b c show ?thesis by blast
qed

theorem C8_normalizev2_witness:
  "trimChars '' # *# '' '' #'' = ''*''
   \<and> normalizev2 (\<lambda>s u. (u @ ''-slug'', Suc s)) '' # *# '' (0::nat) = (''*'', 0)
   \<and> trimChars ''## My Head '' '' #'' = ''My Head''
   \<and> normalizev2 (\<lambda>s u. (u @ ''-slug'', Suc s)) ''## My Head '' (0::nat)
       = (''My Head-slug'', 1)"
proof -
  have t1: "trimChars '' # *# '' '' #'' = ''*''" by (simp add: trimChars_def)
  have t2: "trimChars ''## My Head '' '' #'' = ''My Head''" by (simp add: trimChars_def)
  show ?thesis
    using C8_normalizev2 [where slug = "\<lambda>s u. (u @ ''-slug'', Suc s)" and anchor = "'' # *# ''"
            and slugger = "0::nat"]
          C8_normalizev2 [where slug = "\<lambda>s u. (u @ ''-slug'', Suc s)" and anchor = "''## My Head ''"
            and slugger = "0::nat"]
    by (simp add: t1 t2)
qed

section \<open>Properties of the port-file discovery\<close>

text \<open>
  C9. The CLI port-file path is the workspace port-file path followed by \<open>.cli\<close>.
  \<open>getPortFilePath\<close> returns the workspace path when that file exists, otherwise the CLI
  path when that file exists, and otherwise an error value (a 404 error carrying the CLI
  path) as data: the function always returns.
\<close>

theorem C9_getPortFilePath:
  "getPortFilePathForCLI env root = getPortFilePathForWorkspace env root @ ''.cli''
   \<and> getPortFilePath env root =
       (if existsSync env (getPortFilePathForWorkspace env root)
          then Inr (getPortFilePathForWorkspace env root)
        else if existsSync env (getPortFilePathForWorkspace env root @ ''.cli'')
          then Inr (getPortFilePathForWorkspace env root @ ''.cli'')
        else Inl (NotFound404 (getPortFilePathForWorkspace env root @ ''.cli'')))"
  by (simp add: getPortFilePath_def getPortFilePathForCLI_def
        getPortFilePathForWorkspace_def getPortFilePathForTarget_def Let_def)

theorem C9_getPortFilePath_witness:
  "getPortFilePath
     \<lparr>path_join = (\<lambda>a b. a @ ''/'' @ b), DENDRON_SERVER_PORT = ''.dendron.port'',
      existsSync = (\<lambda>p. p = ''/ws/.dendron.port'' \<or> p = ''/ws/.dendron.port.cli'')\<rparr> ''/ws''
     = Inr ''/ws/.dendron.port''
   \<and> getPortFilePath
     \<lparr>path_join = (\<lambda>a b. a @ ''/'' @ b), DENDRON_SERVER_PORT = ''.dendron.port'',
      existsSync = (\<lambda>p. p = ''/ws/.dendron.port.cli'')\<rparr> ''/ws''
     = Inr ''/ws/.dendron.port.cli''
   \<and> getPortFilePath
     \<lparr>path_join = (\<lambda>a b. a @ ''/'' @ b), DENDRON_SERVER_PORT = ''.dendron.port'',
      existsSync = (\<lambda>p. False)\<rparr> ''/ws''
     = Inl (NotFound404 ''/ws/.dendron.port.cli'')"
  using
    C9_getPortFilePath [of "\<lparr>path_join = (\<lambda>a b. a @ ''/'' @ b),
      DENDRON_SERVER_PORT = ''.dendron.port'',
      existsSync = (\<lambda>p. p = ''/ws/.dendron.port'' \<or> p = ''/ws/.dendron.port.cli'')\<rparr>" "''/ws''"]
    C9_getPortFilePath [of "\<lparr>path_join = (\<lambda>a b. a @ ''/'' @ b),
      DENDRON_SERVER_PORT = ''.dendron.port'',
      existsSync = (\<lambda>p. p = ''/ws/.dendron.port.cli'')\<rparr>" "''/ws''"]
    C9_getPortFilePath [of "\<lparr>path_join = (\<lambda>a b. a @ ''/'' @ b),
      DENDRON_SERVER_PORT = ''.dendron.port'',
      existsSync = (\<lambda>p. False)\<rparr>" "''/ws''"]
  by (simp add: getPortFilePathForWorkspace_def getPortFilePathForTarget_def)

section \<open>Properties of refreshNotesV2\<close>

lemma refreshNotesV2_Cons_single: "refreshNotesV2 [ent] eng = refreshEntry [ent] eng ent"
  by (simp add: refreshNotesV2_def)

lemma refreshNotesV2_steps:
  "foldl (refreshEntry batch) eng (es @ [ent]) = refreshEntry batch (foldl (refreshEntry batch) eng es) ent"
  by simp

text \<open>
  C6. A delete entry for the note with id \<open>X\<close> removes exactly \<open>X\<close> from the notes
  dictionary and exactly \<open>X\<close> from the fname index (under the entry's fname). Every other
  key of the dictionary, in particular every child of the deleted note, keeps its note
  unchanged, and every other index entry stays as it was: nothing cascades.
\<close>

theorem C6_delete_no_cascade:
  assumes "ent_status ent = st_delete"
  shows "notes' (refreshEntry batch eng ent) (id' (ent_note ent)) = None
       \<and> (\<forall>k. k \<noteq> id' (ent_note ent) \<longrightarrow> notes' (refreshEntry batch eng ent) k = notes' eng k)
       \<and> (\<forall>c \<in> set (children (ent_note ent)). c \<noteq> id' (ent_note ent) \<longrightarrow>
             notes' (refreshEntry batch eng ent) c = notes' eng c)
       \<and> noteFnames (refreshEntry batch eng ent) (fname (ent_note ent))
            = noteFnames eng (fname (ent_note ent)) - {id' (ent_note ent)}
       \<and> (\<forall>f. f \<noteq> fname (ent_note ent) \<longrightarrow>
             noteFnames (refreshEntry batch eng ent) f = noteFnames eng f)"
  using assms by (simp add: refreshEntry_def Let_def NoteFNamesDict_delete_def)


theorem C6_delete_no_cascade_witness:
  "(let parent = plainNote ''p'' ''proj'' ''Proj'' [''c''];
        child = plainNote ''c'' ''proj.a'' ''A'' [];
        eng = \<lparr>notes' = [''p'' \<mapsto> parent, ''c'' \<mapsto> child],
               noteFnames = (\<lambda>f. if f = ''proj'' then {''p''} else if f = ''proj.a'' then {''c''} else {})\<rparr>;
        ent = \<lparr>ent_status = st_delete, ent_note = parent, ent_prevNote = None\<rparr>;
        eng' = refreshNotesV2 [ent] eng
    in notes' eng' ''p'' = None \<and> notes' eng' ''c'' = Some child
       \<and> noteFnames eng' ''proj'' = {} \<and> noteFnames eng' ''proj.a'' = {''c''})"
  using C6_delete_no_cascade
    [of "\<lparr>ent_status = st_delete, ent_note = plainNote ''p'' ''proj'' ''Proj'' [''c''],
          ent_prevNote = None\<rparr>"
        "[\<lparr>ent_status = st_delete, ent_note = plainNote ''p'' ''proj'' ''Proj'' [''c''],
          ent_prevNote = None\<rparr>]"
        "\<lparr>notes' = [''p'' \<mapsto> plainNote ''p'' ''proj'' ''Proj'' [''c''],
                    ''c'' \<mapsto> plainNote ''c'' ''proj.a'' ''A'' []],
          noteFnames = (\<lambda>f. if f = ''proj'' then {''p''} else if f = ''proj.a'' then {''c''} else {})\<rparr>"]
  by (simp add: refreshNotesV2_def plainNote_def Let_def)











section \<open>Properties of findBrokenLinks\<close>

lemma filterE_member:
  "filterE p xs = Inr ys \<Longrightarrow> (x \<in> set ys \<longleftrightarrow> x \<in> set xs \<and> p x = Inr True)"
proof (induction xs arbitrary: ys)
  case Nil
  then show ?case by auto
next
  case (Cons a xs)
  from Cons.prems obtain b zs where pa: "p a = Inr b" and rest: "filterE p xs = Inr zs"
    and ys: "ys = (if b then a # zs else zs)"
    by (auto split: sum.splits)
  from Cons.IH [OF rest] have ih: "x \<in> set zs \<longleftrightarrow> x \<in> set xs \<and> p x = Inr True" .
  show ?case using pa ys ih by (cases b) auto
qed

lemma filterE_defined:
  "filterE p xs = Inr ys \<Longrightarrow> x \<in> set xs \<Longrightarrow> \<exists>b. p x = Inr b"
proof (induction xs arbitrary: ys)
  case Nil
  then show ?case by simp
next
  case (Cons a xs)
  from Cons.prems(1) obtain b zs where pa: "p a = Inr b" and rest: "filterE p xs = Inr zs"
    by (auto split: sum.splits)
  show ?case using Cons.IH [OF rest] Cons.prems(2) pa by auto
qed

lemma filterE_returns:
  "\<forall>x \<in> set xs. \<exists>b. p x = Inr b \<Longrightarrow> \<exists>ys. filterE p xs = Inr ys"
  by (induction xs) (auto split: sum.splits)

lemma findBrokenLinks_member:
  assumes "findBrokenLinks note ns engine = Inr out"
  shows "l \<in> set out \<longleftrightarrow> l \<in> set (links note) \<and> isBrokenLink engine note ns l = Inr True"
proof (cases "links note = []")
  case True
  with assms show ?thesis by (simp add: findBrokenLinks_def)
next
  case False
  with assms have "filterE (isBrokenLink engine note ns) (links note) = Inr out"
    by (simp add: findBrokenLinks_def)
  then show ?thesis by (rule filterE_member)
qed

lemma isBrokenLink_with_prefix:
  assumes "link_type l = wiki" and "link_to l = Some t" and "loc_vaultName t = Some vn"
      and "vn \<noteq> []" and "VaultUtils_getVaultByName (vaults engine) vn = Some v"
  shows "isBrokenLink engine note ns l
           = Inr (NoteUtils_getNoteByFnameV5 (loc_fname t) (Some v) ns = None)"
  using assms by (simp add: isBrokenLink_def LinkUtils_hasVaultPrefix_def Let_def)

lemma isBrokenLink_no_prefix:
  assumes "link_type l = wiki" and "link_to l = Some t" and "\<not> LinkUtils_hasVaultPrefix l"
  shows "isBrokenLink engine note ns l
           = Inr (NoteUtils_getNoteByFnameV5 (loc_fname t) (vault note) ns = None
                  \<and> \<not> length (vaults engine) > 1)"
  using assms by (simp add: isBrokenLink_def Let_def)

lemma getNoteByFnameV5_None_in_vault:
  "NoteUtils_getNoteByFnameV5 fn (Some v) ns = None
     \<longleftrightarrow> \<not> (\<exists>n \<in> set ns. fname n = fn \<and> (\<exists>nv. vault n = Some nv \<and> VaultUtils_isEqual v nv))"
  by (auto simp: NoteUtils_getNoteByFnameV5_def find_None_iff split: option.splits)

text \<open>
  Without a vault prefix, in a workspace of several vaults, a wiki link is never reported:
  the code answers \<open>!isMultiVault\<close> when the lookup in the note's own vault finds nothing.
\<close>

lemma findBrokenLinks_multi_vault_unprefixed:
  assumes "findBrokenLinks note ns engine = Inr out"
      and "\<not> LinkUtils_hasVaultPrefix l" and "length (vaults engine) > 1"
  shows "l \<notin> set out"
proof
  assume "l \<in> set out"
  with assms(1) have br: "isBrokenLink engine note ns l = Inr True"
    by (simp add: findBrokenLinks_member)
  show False
  proof (cases "link_type l = wiki")
    case False
    with br show False by (simp add: isBrokenLink_def)
  next
    case True
    show False
    proof (cases "link_to l")
      case None
      with True br assms(2) show False by (simp add: isBrokenLink_def Let_def)
    next
      case (Some t)
      from isBrokenLink_no_prefix [OF True Some assms(2)] br assms(3) show False by simp
    qed
  qed
qed

text \<open>The filter returns (does not throw) when every wiki link of the note has a target.\<close>

lemma findBrokenLinks_returns:
  assumes "\<forall>l \<in> set (links note). link_type l = wiki \<longrightarrow> link_to l \<noteq> None"
  shows "\<exists>out. findBrokenLinks note ns engine = Inr out"
proof -
  have "\<exists>b. isBrokenLink engine note ns l = Inr b" if "l \<in> set (links note)" for l
  proof (cases "link_type l = wiki")
    case False
    then have "isBrokenLink engine note ns l = Inr False" by (simp add: isBrokenLink_def)
    then show ?thesis by blast
  next
    case True
    with assms that obtain t where "link_to l = Some t" by auto
    then show ?thesis by (auto simp: isBrokenLink_def Let_def)
  qed
  then have "\<exists>ys. filterE (isBrokenLink engine note ns) (links note) = Inr ys"
    by (intro filterE_returns) blast
  then show ?thesis by (auto simp: findBrokenLinks_def)
qed

text \<open>
  C1. Let \<open>l\<close> be a wiki link of the note with target \<open>t\<close>, and let \<open>findBrokenLinks\<close>
  return the list \<open>out\<close>. If \<open>t\<close> has a vault prefix that names the vault \<open>v\<close> of the
  workspace, then \<open>l\<close> is in \<open>out\<close> exactly when no note of the given notes has the fname
  of \<open>t\<close> in the vault \<open>v\<close>. If \<open>l\<close> has no vault prefix and the workspace has more than
  one vault, then \<open>l\<close> is in \<open>out\<close> only if no note of the given notes has the fname of
  \<open>t\<close> in the vault of the note that holds the link.
\<close>

theorem C1_findBrokenLinks:
  assumes "findBrokenLinks note ns engine = Inr out"
      and "l \<in> set (links note)" and "link_type l = wiki" and "link_to l = Some t"
  shows "(\<forall>vn v. loc_vaultName t = Some vn \<and> vn \<noteq> []
                \<and> VaultUtils_getVaultByName (vaults engine) vn = Some v
            \<longrightarrow> (l \<in> set out \<longleftrightarrow>
                   \<not> (\<exists>n \<in> set ns. fname n = loc_fname t
                         \<and> (\<exists>nv. vault n = Some nv \<and> VaultUtils_isEqual v nv))))
       \<and> (\<forall>av. \<not> LinkUtils_hasVaultPrefix l \<and> length (vaults engine) > 1 \<and> vault note = Some av
            \<longrightarrow> (l \<in> set out \<longrightarrow>
                   \<not> (\<exists>n \<in> set ns. fname n = loc_fname t
                         \<and> (\<exists>nv. vault n = Some nv \<and> VaultUtils_isEqual av nv))))"
proof (intro conjI allI impI)
  fix vn v
  assume h: "loc_vaultName t = Some vn \<and> vn \<noteq> []
               \<and> VaultUtils_getVaultByName (vaults engine) vn = Some v"
  then have "isBrokenLink engine note ns l
               = Inr (NoteUtils_getNoteByFnameV5 (loc_fname t) (Some v) ns = None)"
    using assms(3,4) by (intro isBrokenLink_with_prefix) auto
  then have "l \<in> set out \<longleftrightarrow> NoteUtils_getNoteByFnameV5 (loc_fname t) (Some v) ns = None"
    using assms(1,2) by (simp add: findBrokenLinks_member)
  then show "l \<in> set out \<longleftrightarrow>
               \<not> (\<exists>n \<in> set ns. fname n = loc_fname t
                     \<and> (\<exists>nv. vault n = Some nv \<and> VaultUtils_isEqual v nv))"
    by (simp only: getNoteByFnameV5_None_in_vault)
next
  fix av
  assume h: "\<not> LinkUtils_hasVaultPrefix l \<and> length (vaults engine) > 1 \<and> vault note = Some av"
    and "l \<in> set out"
  with findBrokenLinks_multi_vault_unprefixed [OF assms(1), of l]
  show "\<not> (\<exists>n \<in> set ns. fname n = loc_fname t
              \<and> (\<exists>nv. vault n = Some nv \<and> VaultUtils_isEqual av nv))"
    by blast
qed


theorem C1_findBrokenLinks_witness:
  "(let v1 = \<lparr>fsPath = ''vault1'', vault_name = None\<rparr>;
        v2 = \<lparr>fsPath = ''vault2'', vault_name = None\<rparr>;
        engine = \<lparr>wsRoot = ''/ws'', vaults = [v1, v2], engine_notes = [],
                   queryNotesSync = (\<lambda>q. [])\<rparr>;
        tx = \<lparr>loc_fname = ''x'', loc_vaultName = Some ''vault2''\<rparr>;
        lx = \<lparr>link_type = wiki, link_value = ''x'',
               link_from = \<lparr>loc_fname = ''a'', loc_vaultName = Some ''vault1''\<rparr>,
               link_to = Some tx, link_position = None\<rparr>;
        ly = \<lparr>link_type = wiki, link_value = ''y'',
               link_from = \<lparr>loc_fname = ''a'', loc_vaultName = Some ''vault1''\<rparr>,
               link_to = Some \<lparr>loc_fname = ''y'', loc_vaultName = None\<rparr>, link_position = None\<rparr>;
        a = (plainNote ''ida'' ''a'' ''A'' [])\<lparr>vault := Some v1, links := [lx, ly]\<rparr>;
        x = (plainNote ''idx'' ''x'' ''X'' [])\<lparr>vault := Some v1\<rparr>
    in findBrokenLinks a [a, x] engine = Inr [lx]
       \<and> VaultUtils_getVaultByName (vaults engine) ''vault2'' = Some v2
       \<and> \<not> (\<exists>n \<in> set [a, x]. fname n = loc_fname tx
                \<and> (\<exists>nv. vault n = Some nv \<and> VaultUtils_isEqual v2 nv)))"
proof -
  let ?v1 = "\<lparr>fsPath = ''vault1'', vault_name = None\<rparr>"
  let ?v2 = "\<lparr>fsPath = ''vault2'', vault_name = None\<rparr>"
  let ?engine = "\<lparr>wsRoot = ''/ws'', vaults = [?v1, ?v2], engine_notes = [],
                   queryNotesSync = (\<lambda>q. [])\<rparr>"
  let ?tx = "\<lparr>loc_fname = ''x'', loc_vaultName = Some ''vault2''\<rparr>"
  let ?lx = "\<lparr>link_type = wiki, link_value = ''x'',
               link_from = \<lparr>loc_fname = ''a'', loc_vaultName = Some ''vault1''\<rparr>,
               link_to = Some ?tx, link_position = None\<rparr>"
  let ?ly = "\<lparr>link_type = wiki, link_value = ''y'',
               link_from = \<lparr>loc_fname = ''a'', loc_vaultName = Some ''vault1''\<rparr>,
               link_to = Some \<lparr>loc_fname = ''y'', loc_vaultName = None\<rparr>, link_position = None\<rparr>"
  let ?a = "(plainNote ''ida'' ''a'' ''A'' [])\<lparr>vault := Some ?v1, links := [?lx, ?ly]\<rparr>"
  let ?x = "(plainNote ''idx'' ''x'' ''X'' [])\<lparr>vault := Some ?v1\<rparr>"
  have gv: "VaultUtils_getVaultByName (vaults ?engine) ''vault2'' = Some ?v2"
    by (simp add: VaultUtils_getVaultByName_def VaultUtils_getName_def lastSegment_def)
  have run: "findBrokenLinks ?a [?a, ?x] ?engine = Inr [?lx]"
    by (simp add: findBrokenLinks_def isBrokenLink_def LinkUtils_hasVaultPrefix_def
          VaultUtils_getVaultByName_def VaultUtils_getName_def lastSegment_def
          NoteUtils_getNoteByFnameV5_def VaultUtils_isEqual_def plainNote_def Let_def)
  have h2: "?lx \<in> set (links ?a)" by simp
  have h3: "link_type ?lx = wiki" by simp
  have h4: "link_to ?lx = Some ?tx" by simp
  from C1_findBrokenLinks [OF run h2 h3 h4] gv
  have "?lx \<in> set [?lx] \<longleftrightarrow>
          \<not> (\<exists>n \<in> set [?a, ?x]. fname n = loc_fname ?tx
                \<and> (\<exists>nv. vault n = Some nv \<and> VaultUtils_isEqual ?v2 nv))"
    by simp
  then have "\<not> (\<exists>n \<in> set [?a, ?x]. fname n = loc_fname ?tx
                \<and> (\<exists>nv. vault n = Some nv \<and> VaultUtils_isEqual ?v2 nv))"
    by simp
  with run gv show ?thesis by (simp add: Let_def)
qed


section \<open>Properties of executeDoctorActions\<close>

subsection \<open>The notes an action is applied to\<close>

lemma doctorLoop_applied:
  assumes keeps: "\<And>n st. applied (endState (act n st)) = applied st"
  shows "\<exists>j. applied (endState (doctorLoop act lim ns st)) = applied st @ take j ns"
proof (induction ns arbitrary: st)
  case Nil
  show ?case by simp
next
  case (Cons nt rest)
  show ?case
  proof (cases "int (numChanges st) \<ge> lim")
    case True
    then have "applied (endState (doctorLoop act lim (nt # rest) st)) = applied st @ take 0 (nt # rest)"
      by simp
    then show ?thesis by blast
  next
    case False
    let ?st1 = "st\<lparr>applied := applied st @ [nt]\<rparr>"
    have k1: "applied (endState (act nt ?st1)) = applied st @ [nt]"
      using keeps [of nt ?st1] by simp
    show ?thesis
    proof (cases "act nt ?st1")
      case (Inl err)
      obtain e st' where err: "err = (e, st')" by (cases err)
      with Inl k1 False
      have "applied (endState (doctorLoop act lim (nt # rest) st)) = applied st @ take 1 (nt # rest)"
        by simp
      then show ?thesis by blast
    next
      case (Inr ok)
      obtain nt' st' where ok: "ok = (nt', st')" by (cases ok)
      from Inr ok k1 have a1: "applied st' = applied st @ [nt]" by simp
      from Cons.IH [of st'] obtain j where
        j: "applied (endState (doctorLoop act lim rest st')) = applied st' @ take j rest" by blast
      have "endState (doctorLoop act lim (nt # rest) st) = endState (doctorLoop act lim rest st')"
        using False Inr ok by (cases "doctorLoop act lim rest st'") (auto split: prod.splits)
      with j a1
      have "applied (endState (doctorLoop act lim (nt # rest) st)) = applied st @ take (Suc j) (nt # rest)"
        by simp
      then show ?thesis by blast
    qed
  qed
qed

lemma finalState_runDoctorAction:
  "finalState (runDoctorAction act lim ex ns st) = endState (doctorLoop act lim ns st)"
  by (cases "doctorLoop act lim ns st") (auto simp: runDoctorAction_def split: prod.splits)

lemma runDoctorAction_applied:
  assumes "\<And>n st. applied (endState (act n st)) = applied st" and "applied st = []"
  shows "set (applied (finalState (runDoctorAction act lim ex ns st))) \<subseteq> set ns"
proof -
  from doctorLoop_applied [of act, OF assms(1)] obtain j where
    "applied (endState (doctorLoop act lim ns st)) = applied st @ take j ns" by blast
  with assms(2) show ?thesis
    by (auto simp: finalState_runDoctorAction dest: in_set_takeD)
qed

lemma run_no_stub:
  assumes "\<And>n st. applied (endState (act n st)) = applied st"
      and "applied st = []" and "\<forall>n \<in> set ns. \<not> stub n"
  shows "set (applied (finalState (runDoctorAction act lim ex ns st))) \<subseteq> {n. \<not> stub n}"
  using runDoctorAction_applied [of act st lim ex ns, OF assms(1,2)] assms(3) by blast
















subsection \<open>Broken-link destinations\<close>

lemma uniqByFrom_keys:
  "distinct (map f (uniqByFrom f seen xs))
   \<and> set (map f (uniqByFrom f seen xs)) = set (map f xs) - set seen"
proof (induction xs arbitrary: seen)
  case Nil
  show ?case by simp
next
  case (Cons x xs)
  show ?case
  proof (cases "f x \<in> set seen")
    case True
    with Cons.IH [of seen] show ?thesis by auto
  next
    case False
    with Cons.IH [of "f x # seen"] show ?thesis by auto
  qed
qed

lemma uniqBy_distinct: "distinct (map f (uniqBy f xs))"
  using uniqByFrom_keys [of f "[]" xs] by (simp add: uniqBy_def)

lemma uniqBy_set: "set (map f (uniqBy f xs)) = set (map f xs)"
  using uniqByFrom_keys [of f "[]" xs] by (simp add: uniqBy_def)

lemma destinationNotes_fnames:
  "destinationNotes ext engine k ls = Inr (ds, k') \<Longrightarrow> map (\<lambda>d. Some (fname d)) ds = map to_fname ls"
proof (induction ls arbitrary: k ds)
  case Nil
  then show ?case by simp
next
  case (Cons l ls)
  from Cons.prems obtain n ns where
    n: "destinationNote ext engine (genUUID ext k) l = Inr n"
    and rest: "destinationNotes ext engine (Suc k) ls = Inr (ns, k')" and ds: "ds = n # ns"
    by (auto split: sum.splits prod.splits)
  from n have "Some (fname n) = to_fname l"
    by (auto simp: destinationNote_def NoteUtils_create_def to_fname_def Let_def split: option.splits)
  with Cons.IH [OF rest] ds show ?case by simp
qed

lemma distinct_map_Some: "distinct (map (\<lambda>x. Some (f x)) xs) \<Longrightarrow> distinct (map f xs)"
  by (induction xs) auto

lemma getBrokenLinkDestinations_distinct:
  assumes "getBrokenLinkDestinations ext ns engine k = Inr (ds, k')"
  shows "distinct (map fname ds)"
proof -
  from assms obtain bl where
    d: "destinationNotes ext engine k (uniqBy to_fname bl) = Inr (ds, k')"
    by (auto simp: getBrokenLinkDestinations_def split: sum.splits)
  from destinationNotes_fnames [OF d]
  have "map (\<lambda>d. Some (fname d)) ds = map to_fname (uniqBy to_fname bl)" .
  then have "distinct (map (\<lambda>d. Some (fname d)) ds)" by (simp add: uniqBy_distinct)
  then show ?thesis by (rule distinct_map_Some)
qed

lemma getBrokenLinkDestinations_covers:
  assumes "getBrokenLinkDestinations ext ns engine k = Inr (ds, k')"
      and "collectBrokenLinks engine ns ns [] = Inr bl"
  shows "Some ` set (map fname ds) = set (map to_fname bl)"
proof -
  from assms have d: "destinationNotes ext engine k (uniqBy to_fname bl) = Inr (ds, k')"
    by (auto simp: getBrokenLinkDestinations_def split: sum.splits)
  from destinationNotes_fnames [OF d]
  have "set (map (\<lambda>d. Some (fname d)) ds) = set (map to_fname (uniqBy to_fname bl))" by simp
  moreover have "set (map to_fname (uniqBy to_fname bl)) = set (map to_fname bl)"
    by (rule uniqBy_set)
  ultimately show ?thesis by (simp add: image_image)
qed

lemma doctorLoop_calls:
  assumes adds: "\<And>n st. calls (endState (act n st)) = calls st @ f n"
  shows "\<exists>j. calls (endState (doctorLoop act lim ns st)) = calls st @ concat (map f (take j ns))"
proof (induction ns arbitrary: st)
  case Nil
  show ?case by simp
next
  case (Cons nt rest)
  show ?case
  proof (cases "int (numChanges st) \<ge> lim")
    case True
    then have "calls (endState (doctorLoop act lim (nt # rest) st))
                 = calls st @ concat (map f (take 0 (nt # rest)))"
      by simp
    then show ?thesis by blast
  next
    case False
    let ?st1 = "st\<lparr>applied := applied st @ [nt]\<rparr>"
    have k1: "calls (endState (act nt ?st1)) = calls st @ f nt"
      using adds [of nt ?st1] by simp
    show ?thesis
    proof (cases "act nt ?st1")
      case (Inl err)
      obtain e st' where err: "err = (e, st')" by (cases err)
      with Inl k1 False
      have "calls (endState (doctorLoop act lim (nt # rest) st))
              = calls st @ concat (map f (take 1 (nt # rest)))"
        by simp
      then show ?thesis by blast
    next
      case (Inr ok)
      obtain nt' st' where ok: "ok = (nt', st')" by (cases ok)
      from Inr ok k1 have a1: "calls st' = calls st @ f nt" by simp
      from Cons.IH [of st'] obtain j where
        j: "calls (endState (doctorLoop act lim rest st')) = calls st' @ concat (map f (take j rest))"
        by blast
      have "endState (doctorLoop act lim (nt # rest) st) = endState (doctorLoop act lim rest st')"
        using False Inr ok by (cases "doctorLoop act lim rest st'") (auto split: prod.splits)
      with j a1
      have "calls (endState (doctorLoop act lim (nt # rest) st))
              = calls st @ concat (map f (take (Suc j) (nt # rest)))"
        by simp
      then show ?thesis by blast
    qed
  qed
qed

lemma createMissingLinkedNotesAction_calls:
  "calls (endState (createMissingLinkedNotesAction dry n st))
     = calls st @ (if dry then [] else [GetNoteByPath (fname n) (vault n)])"
  by (simp add: createMissingLinkedNotesAction_def engineGetNoteByPath_def Let_def)

lemma requestedPaths_created:
  "requestedPaths (concat (map (\<lambda>n. if dry then [] else [GetNoteByPath (fname n) (vault n)]) ns))
     = (if dry then [] else map fname ns)"
  by (induction ns) auto

lemma createMissing_paths:
  assumes "distinct (map fname ds)" and "calls st = []"
  shows "distinct (requestedPaths (calls (finalState
           (runDoctorAction (createMissingLinkedNotesAction dry) lim ex ds st))))"
proof -
  let ?f = "\<lambda>n. if dry then [] else [GetNoteByPath (fname n) (vault n)]"
  from doctorLoop_calls [of "createMissingLinkedNotesAction dry" ?f lim ds st]
  obtain j where "calls (endState (doctorLoop (createMissingLinkedNotesAction dry) lim ds st))
                    = calls st @ concat (map ?f (take j ds))"
    using createMissingLinkedNotesAction_calls by blast
  with assms(2) have "requestedPaths (calls (finalState
           (runDoctorAction (createMissingLinkedNotesAction dry) lim ex ds st)))
         = (if dry then [] else map fname (take j ds))"
    by (simp only: finalState_runDoctorAction requestedPaths_created append_Nil)
  moreover have "distinct (map fname (take j ds))"
    using assms(1) by (simp add: take_map [symmetric] distinct_take)
  ultimately show ?thesis by simp
qed

text \<open>
  C4. The candidate list of \<open>getBrokenLinkDestinations\<close> has pairwise distinct fnames,
  and these fnames are exactly the target fnames of the broken links collected over the
  given notes. Hence a run of \<open>createMissingLinkedNotes\<close> asks the engine at most once
  for each fname, however many notes link to it.
\<close>

theorem C4_broken_link_destinations_distinct:
  "(\<forall>ds k'. getBrokenLinkDestinations ext ns engine k = Inr (ds, k') \<longrightarrow>
       distinct (map fname ds)
     \<and> (\<forall>bl. collectBrokenLinks engine ns ns [] = Inr bl \<longrightarrow>
            Some ` set (map fname ds) = set (map to_fname bl)))
   \<and> (action opts = CREATE_MISSING_LINKED_NOTES \<longrightarrow>
        distinct (requestedPaths (calls (finalState (executeDoctorActions ext opts engine k)))))"
proof (intro conjI allI impI)
  fix ds k' assume "getBrokenLinkDestinations ext ns engine k = Inr (ds, k')"
  then show "distinct (map fname ds)" by (rule getBrokenLinkDestinations_distinct)
next
  fix ds k' bl
  assume "getBrokenLinkDestinations ext ns engine k = Inr (ds, k')"
    and "collectBrokenLinks engine ns ns [] = Inr bl"
  then show "Some ` set (map fname ds) = set (map to_fname bl)"
    by (rule getBrokenLinkDestinations_covers)
next
  assume act: "action opts = CREATE_MISSING_LINKED_NOTES"
  let ?lim = "(case limit opts of None \<Rightarrow> 99999 | Some l \<Rightarrow> l)"
  let ?ex = "(case exit opts of None \<Rightarrow> True | Some e \<Rightarrow> e)"
  let ?ns0 = "(case candidates opts of
                   None \<Rightarrow> (case query opts of
                              None \<Rightarrow> engine_notes engine
                            | Some q \<Rightarrow> if q \<noteq> [] then queryNotesSync engine q
                                        else engine_notes engine)
                 | Some c \<Rightarrow> c)"
  let ?ns = "filter (\<lambda>n. \<not> stub n) ?ns0"
  let ?st0 = "\<lparr>numChanges = 0, calls = [], resp = None, uuids = k, applied = []\<rparr>"
  let ?run = "executeDoctorActions ext opts engine k"
  show "distinct (requestedPaths (calls (finalState ?run)))"
  proof (cases "getBrokenLinkDestinations ext ?ns engine k")
    case (Inl e)
    with act show ?thesis by (simp add: executeDoctorActions_def Let_def)
  next
    case (Inr r)
    obtain dests k' where r: "r = (dests, k')" by (cases r)
    from Inr r have ds: "distinct (map fname dests)"
      by (auto dest: getBrokenLinkDestinations_distinct)
    from act Inr r
    have "?run = runDoctorAction (createMissingLinkedNotesAction (dryRun opts)) ?lim ?ex dests
                   (?st0\<lparr>uuids := k'\<rparr>)"
      by (simp add: executeDoctorActions_def Let_def)
    then show ?thesis using ds
      by (simp only:) (rule createMissing_paths, simp_all)
  qed
qed


lemmas example_defs =
  exampleExt_def exampleVault_def exampleEngine_def exampleOpts_def exampleNote_def
  exampleLink_def

lemmas doctor_eval =
  executeDoctorActions_def runDoctorAction_def getBrokenLinkDestinations_def
  findBrokenLinks_def isBrokenLink_def LinkUtils_hasVaultPrefix_def
  VaultUtils_getVaultByName_def VaultUtils_getName_def VaultUtils_isEqual_def
  lastSegment_def NoteUtils_getNoteByFnameV5_def NoteUtils_create_def destinationNote_def
  uniqBy_def to_fname_def createMissingLinkedNotesAction_def engineGetNoteByPath_def
  removeStubsAction_def engineDelete_def regenerateNoteIdAction_def engine_writeNote_def
  engineWrite_def h1ToTitleAction_def h1ToH2Action_def findBrokenLinksAction_def
  fixAirtableMetadataAction_def objGet_def truthy_def trim_def trimChars_def whitespace_def
  Let_def

theorem C4_broken_link_destinations_distinct_witness:
  "getBrokenLinkDestinations exampleExt
       [(exampleNote ''ida'' ''a'' ''text'')\<lparr>links := [exampleLink ''a'' ''missing'']\<rparr>,
        (exampleNote ''idb'' ''b'' ''text'')\<lparr>links := [exampleLink ''b'' ''missing'']\<rparr>]
       exampleEngine 0
     = Inr ([NoteUtils_create exampleExt ''uuid-'' ''missing'' (Some exampleVault)], 1)
   \<and> collectBrokenLinks exampleEngine
       [(exampleNote ''ida'' ''a'' ''text'')\<lparr>links := [exampleLink ''a'' ''missing'']\<rparr>,
        (exampleNote ''idb'' ''b'' ''text'')\<lparr>links := [exampleLink ''b'' ''missing'']\<rparr>]
       [(exampleNote ''ida'' ''a'' ''text'')\<lparr>links := [exampleLink ''a'' ''missing'']\<rparr>,
        (exampleNote ''idb'' ''b'' ''text'')\<lparr>links := [exampleLink ''b'' ''missing'']\<rparr>] []
     = Inr [exampleLink ''a'' ''missing'', exampleLink ''b'' ''missing'']
   \<and> calls (finalState (executeDoctorActions exampleExt
        (exampleOpts CREATE_MISSING_LINKED_NOTES
           [(exampleNote ''ida'' ''a'' ''text'')\<lparr>links := [exampleLink ''a'' ''missing'']\<rparr>,
            (exampleNote ''idb'' ''b'' ''text'')\<lparr>links := [exampleLink ''b'' ''missing'']\<rparr>]
           None)
        exampleEngine 0))
     = [GetNoteByPath ''missing'' (Some exampleVault)]"
proof -
  let ?a = "(exampleNote ''ida'' ''a'' ''text'')\<lparr>links := [exampleLink ''a'' ''missing'']\<rparr>"
  let ?b = "(exampleNote ''idb'' ''b'' ''text'')\<lparr>links := [exampleLink ''b'' ''missing'']\<rparr>"
  have col: "collectBrokenLinks exampleEngine [?a, ?b] [?a, ?b] []
               = Inr [exampleLink ''a'' ''missing'', exampleLink ''b'' ''missing'']"
    by (simp add: example_defs doctor_eval)
  have dst: "getBrokenLinkDestinations exampleExt [?a, ?b] exampleEngine 0
               = Inr ([NoteUtils_create exampleExt ''uuid-'' ''missing'' (Some exampleVault)], 1)"
    by (simp add: example_defs doctor_eval)
  have run: "calls (finalState (executeDoctorActions exampleExt
               (exampleOpts CREATE_MISSING_LINKED_NOTES [?a, ?b] None) exampleEngine 0))
             = [GetNoteByPath ''missing'' (Some exampleVault)]"
    by (simp add: example_defs doctor_eval)
  have act: "action (exampleOpts CREATE_MISSING_LINKED_NOTES [?a, ?b] None) = CREATE_MISSING_LINKED_NOTES"
    by (simp add: exampleOpts_def)
  from C4_broken_link_destinations_distinct
         [of exampleExt "[?a, ?b]" exampleEngine 0
             "exampleOpts CREATE_MISSING_LINKED_NOTES [?a, ?b] None"]
       dst col act
  have "distinct (map fname [NoteUtils_create exampleExt ''uuid-'' ''missing'' (Some exampleVault)])
      \<and> distinct (requestedPaths (calls (finalState (executeDoctorActions exampleExt
               (exampleOpts CREATE_MISSING_LINKED_NOTES [?a, ?b] None) exampleEngine 0))))"
    by blast
  with col dst run show ?thesis by simp
qed



subsection \<open>The limit\<close>

text \<open>
  An action that counts at most one change per note, and makes no more engine calls than
  it counts changes (one more at most when it throws), never makes more engine calls in a
  run than the limit allows.
\<close>

lemma doctorLoop_limit:
  assumes ok: "\<And>n st n' st'. act n st = Inr (n', st') \<Longrightarrow>
                 numChanges st \<le> numChanges st' \<and> numChanges st' \<le> Suc (numChanges st)
                 \<and> length (calls st') + numChanges st \<le> length (calls st) + numChanges st'"
      and thr: "\<And>n st e st'. act n st = Inl (e, st') \<Longrightarrow>
                 length (calls st') \<le> Suc (length (calls st))"
  shows "length (calls st) \<le> numChanges st \<Longrightarrow>
         length (calls (endState (doctorLoop act lim ns st))) \<le> max (numChanges st) (nat lim)"
proof (induction ns arbitrary: st)
  case Nil
  then show ?case by simp
next
  case (Cons nt rest)
  show ?case
  proof (cases "int (numChanges st) \<ge> lim")
    case True
    with Cons.prems show ?thesis by simp
  next
    case False
    then have lt: "numChanges st < nat lim" by linarith
    let ?st1 = "st\<lparr>applied := applied st @ [nt]\<rparr>"
    show ?thesis
    proof (cases "act nt ?st1")
      case (Inl err)
      obtain e st' where err: "err = (e, st')" by (cases err)
      from thr [of nt ?st1 e st'] Inl err have "length (calls st') \<le> Suc (length (calls st))"
        by simp
      with Cons.prems lt have "length (calls st') \<le> nat lim" by linarith
      with Inl err False show ?thesis by simp
    next
      case (Inr okv)
      obtain nt' st' where okv: "okv = (nt', st')" by (cases okv)
      from ok [of nt ?st1 nt' st'] Inr okv
      have s1: "numChanges st \<le> numChanges st'" and s2: "numChanges st' \<le> Suc (numChanges st)"
        and s3: "length (calls st') + numChanges st \<le> length (calls st) + numChanges st'"
        by simp_all
      from s3 Cons.prems have inv': "length (calls st') \<le> numChanges st'" by linarith
      from Cons.IH [OF inv']
      have ih: "length (calls (endState (doctorLoop act lim rest st'))) \<le> max (numChanges st') (nat lim)" .
      have "endState (doctorLoop act lim (nt # rest) st) = endState (doctorLoop act lim rest st')"
        using False Inr okv by (cases "doctorLoop act lim rest st'") (auto split: prod.splits)
      with ih s2 lt show ?thesis by simp
    qed
  qed
qed

lemma counting_run_within_limit:
  assumes ok: "\<And>n st n' st'. act n st = Inr (n', st') \<Longrightarrow>
                 numChanges st \<le> numChanges st' \<and> numChanges st' \<le> Suc (numChanges st)
                 \<and> length (calls st') + numChanges st \<le> length (calls st) + numChanges st'"
      and thr: "\<And>n st e st'. act n st = Inl (e, st') \<Longrightarrow>
                 length (calls st') \<le> Suc (length (calls st))"
      and "calls st = []" and "numChanges st = 0"
  shows "length (calls (finalState (runDoctorAction act lim ex ns st))) \<le> nat lim"
  using doctorLoop_limit [of act st lim ns, OF ok thr] assms(3,4)
  by (simp add: finalState_runDoctorAction)

text \<open>
  The actions that count their changes keep to the limit: a run of \<open>h1ToTitle\<close>,
  \<open>h1ToH2\<close>, \<open>removeStubs\<close>, \<open>createMissingLinkedNotes\<close> or \<open>regenerateNoteId\<close> makes at
  most \<open>limit\<close> engine calls.
\<close>

lemma counting_actions_within_limit:
  assumes "action opts \<in> {H1_TO_TITLE, HI_TO_H2, REMOVE_STUBS, CREATE_MISSING_LINKED_NOTES,
                           REGENERATE_NOTE_ID}"
  shows "length (calls (finalState (executeDoctorActions ext opts engine k)))
           \<le> nat (case limit opts of None \<Rightarrow> 99999 | Some l \<Rightarrow> l)"
proof -
  let ?lim = "(case limit opts of None \<Rightarrow> 99999 | Some l \<Rightarrow> l)"
  let ?ex = "(case exit opts of None \<Rightarrow> True | Some e \<Rightarrow> e)"
  let ?ns0 = "(case candidates opts of
                   None \<Rightarrow> (case query opts of
                              None \<Rightarrow> engine_notes engine
                            | Some q \<Rightarrow> if q \<noteq> [] then queryNotesSync engine q
                                        else engine_notes engine)
                 | Some c \<Rightarrow> c)"
  let ?ns = "filter (\<lambda>n. \<not> stub n) ?ns0"
  let ?st0 = "\<lparr>numChanges = 0, calls = [], resp = None, uuids = k, applied = []\<rparr>"
  let ?run = "executeDoctorActions ext opts engine k"
  consider (a) "action opts = H1_TO_TITLE" | (b) "action opts = HI_TO_H2"
    | (c) "action opts = REMOVE_STUBS" | (d) "action opts = CREATE_MISSING_LINKED_NOTES"
    | (e) "action opts = REGENERATE_NOTE_ID"
    using assms by auto
  then show ?thesis
  proof cases
    case a
    then have "?run = runDoctorAction (h1ToTitleAction ext (dryRun opts)) ?lim ?ex ?ns ?st0"
      by (simp add: executeDoctorActions_def Let_def)
    then show ?thesis
      by (simp only:) (rule counting_run_within_limit;
          auto simp: h1ToTitleAction_def engineWrite_def split: prod.splits if_splits)
  next
    case b
    then have "?run = runDoctorAction (h1ToH2Action ext (dryRun opts)) ?lim ?ex ?ns ?st0"
      by (simp add: executeDoctorActions_def Let_def)
    then show ?thesis
      by (simp only:) (rule counting_run_within_limit;
          auto simp: h1ToH2Action_def engineWrite_def split: prod.splits if_splits)
  next
    case c
    then have "?run = runDoctorAction (removeStubsAction (dryRun opts)) ?lim ?ex ?ns ?st0"
      by (simp add: executeDoctorActions_def Let_def)
    then show ?thesis
      by (simp only:) (rule counting_run_within_limit;
          auto simp: removeStubsAction_def engineDelete_def Let_def split: option.splits if_splits)
  next
    case d
    show ?thesis
    proof (cases "getBrokenLinkDestinations ext ?ns engine k")
      case (Inl e)
      with d show ?thesis by (simp add: executeDoctorActions_def Let_def)
    next
      case (Inr r)
      obtain dests k' where r: "r = (dests, k')" by (cases r)
      from d Inr r
      have "?run = runDoctorAction (createMissingLinkedNotesAction (dryRun opts)) ?lim ?ex dests
                     (?st0\<lparr>uuids := k'\<rparr>)"
        by (simp add: executeDoctorActions_def Let_def)
      then show ?thesis
        by (simp only:) (rule counting_run_within_limit;
            auto simp: createMissingLinkedNotesAction_def engineGetNoteByPath_def Let_def)
    qed
  next
    case e
    then have "?run = runDoctorAction (regenerateNoteIdAction ext) ?lim ?ex ?ns ?st0"
      by (simp add: executeDoctorActions_def Let_def)
    then show ?thesis
      by (simp only:) (rule counting_run_within_limit;
          auto simp: regenerateNoteIdAction_def engine_writeNote_def Let_def split: if_splits)
  qed
qed

text \<open>
  C3. \<open>fixAirtableMetadata\<close> is a per-note action whose \<open>doctorAction\<close> never adds to
  \<open>numChanges\<close>, so the test \<open>numChanges >= limit\<close> never stops its loop: with limit 1 and two
  notes that carry an \<open>airtableId\<close>, both notes are written and \<open>numChanges\<close> is still 0.
\<close>

theorem C3_fixAirtableMetadata_ignores_limit:
  "executeDoctorActions exampleExt
     (exampleOpts FIX_AIRTABLE_METADATA
        [(exampleNote ''id1'' ''proj.a'' ''text'')\<lparr>custom := [(''airtableId'', JStr ''rec1'')]\<rparr>,
         (exampleNote ''id2'' ''proj.b'' ''text'')\<lparr>custom := [(''airtableId'', JStr ''rec2'')]\<rparr>]
        (Some 1))
     exampleEngine 0
   = Inr \<lparr>res_exit = True, res_resp = None,
          res_notes = [exampleNote ''id1'' ''proj.a'' ''text'', exampleNote ''id2'' ''proj.b'' ''text''],
          res_state =
            \<lparr>numChanges = 0,
             calls =
               [WriteNote ((exampleNote ''id1'' ''proj.a'' ''text'')
                  \<lparr>custom := [(''pods'', JObj [(''airtable'', JObj [(''pod1'', JStr ''rec1'')])])]\<rparr>),
                WriteNote ((exampleNote ''id2'' ''proj.b'' ''text'')
                  \<lparr>custom := [(''pods'', JObj [(''airtable'', JObj [(''pod1'', JStr ''rec2'')])])]\<rparr>)],
             resp = None, uuids = 0,
             applied =
               [(exampleNote ''id1'' ''proj.a'' ''text'')\<lparr>custom := [(''airtableId'', JStr ''rec1'')]\<rparr>,
                (exampleNote ''id2'' ''proj.b'' ''text'')\<lparr>custom := [(''airtableId'', JStr ''rec2'')]\<rparr>]\<rparr>\<rparr>"
  by (simp add: example_defs doctor_eval)

subsection \<open>Running an action a second time\<close>












subsection \<open>fixAirtableMetadata a second time\<close>






subsection \<open>The remark passes a second time\<close>










subsection \<open>createMissingLinkedNotes when no link is broken\<close>








section \<open>Properties of the note-reference syntax\<close>

declare digitsOf.simps [simp del]

lemma trimChars_id:
  assumes "s = [] \<or> (hd s \<notin> set cs \<and> last s \<notin> set cs)"
  shows "trimChars s cs = s"
proof (cases s)
  case Nil
  then show ?thesis by (simp add: trimChars_def)
next
  case (Cons x xs)
  with assms have h: "x \<notin> set cs" and l: "last s \<notin> set cs" by auto
  from Cons h have d: "dropWhile (\<lambda>c. c \<in> set cs) s = s" by simp
  from Cons have "rev s \<noteq> []" by simp
  then obtain y ys where r: "rev s = y # ys" by (cases "rev s") auto
  then have "y = last s" using Cons by (metis hd_rev list.sel(1))
  with l have "dropWhile (\<lambda>c. c \<in> set cs) (y # ys) = y # ys" by simp
  with r have "dropWhile (\<lambda>c. c \<in> set cs) (rev s) = rev s" by simp
  with d show ?thesis by (simp add: trimChars_def)
qed

lemma trimChars_leading:
  assumes "c \<in> set cs"
  shows "trimChars (c # s) cs = trimChars s cs"
  using assms by (simp add: trimChars_def)

lemma splitOn_nonempty: "splitOn c s \<noteq> []"
  by (induction s) (auto split: list.splits)

lemma splitOn_no_separator: "c \<notin> set a \<Longrightarrow> splitOn c a = [a]"
  by (induction a) auto

lemma splitOn_first: "c \<notin> set a \<Longrightarrow> splitOn c (a @ c # rest) = a # splitOn c rest"
  by (induction a) auto

lemma joinWith_splitOn: "joinWith c (splitOn c s) = s"
proof (induction s)
  case Nil
  show ?case by simp
next
  case (Cons x xs)
  show ?case
  proof (cases "x = c")
    case True
    obtain y ys where "splitOn c xs = y # ys" using splitOn_nonempty [of c xs] by (cases "splitOn c xs") auto
    with True Cons.IH show ?thesis by simp
  next
    case False
    obtain y ys where s: "splitOn c xs = y # ys" using splitOn_nonempty [of c xs] by (cases "splitOn c xs") auto
    with False Cons.IH show ?thesis by (cases ys) auto
  qed
qed

lemma digit_char: "d < 10 \<Longrightarrow> (of_char (char_of (48 + d)) :: nat) = 48 + d"
  by simp

lemma digitsOf_nonempty: "digitsOf n \<noteq> []"
  by (subst digitsOf.simps) simp

lemma digitsOf_isDigit: "\<forall>c \<in> set (digitsOf n). isDigit c"
proof (induction n rule: digitsOf.induct)
  case (1 n)
  show ?case
  proof (cases "n < 10")
    case True
    then show ?thesis by (subst digitsOf.simps) (simp add: isDigit_def)
  next
    case False
    have "n mod 10 < 10" by simp
    then have "isDigit (char_of (48 + n mod 10))"
      unfolding isDigit_def using digit_char [of "n mod 10"] by presburger
    with False "1.IH" show ?thesis by (subst digitsOf.simps) simp
  qed
qed

lemma digitsValue_snoc: "digitsValue (ds @ [c]) = 10 * digitsValue ds + ((of_char c :: nat) - 48)"
  by (simp add: digitsValue_def)

lemma digitsValue_digitsOf: "digitsValue (digitsOf n) = n"
proof (induction n rule: digitsOf.induct)
  case (1 n)
  show ?case
  proof (cases "n < 10")
    case True
    then have "digitsOf n = [char_of (48 + n)]" by (subst digitsOf.simps) simp
    moreover have "(of_char (char_of (48 + n)) :: nat) - 48 = n"
      using digit_char [OF True] by simp
    ultimately show ?thesis by (simp only: digitsValue_def foldl.simps)
  next
    case False
    have m: "n mod 10 < 10" by simp
    from False have e: "digitsOf n = digitsOf (n div 10) @ [char_of (48 + n mod 10)]"
      by (subst digitsOf.simps) simp
    have v: "(of_char (char_of (48 + n mod 10)) :: nat) - 48 = n mod 10"
      by (simp only: digit_char [OF m])
    from "1.IH" False have ih: "digitsValue (digitsOf (n div 10)) = n div 10" by simp
    have "digitsValue (digitsOf n) = 10 * (n div 10) + n mod 10"
      by (simp only: e digitsValue_snoc v ih)
    then show ?thesis by simp
  qed
qed

lemma isDigit_props:
  "isDigit c \<Longrightarrow> c \<notin> set whitespace \<and> c \<noteq> CHR ''-'' \<and> c \<noteq> CHR ''+'' \<and> c \<noteq> CHR '',''
                 \<and> isNameChar c"
  by (auto simp: isDigit_def whitespace_def isNameChar_def)

lemma parseInt_digits:
  assumes "ds \<noteq> []" and "\<forall>c \<in> set ds. isDigit c"
  shows "parseInt ds = JInt (int (digitsValue ds))"
    and "parseInt (CHR ''-'' # ds) = JInt (- int (digitsValue ds))"
proof -
  from assms obtain d rest where ds: "ds = d # rest" by (cases ds) auto
  with assms(2) have d: "isDigit d" by simp
  from isDigit_props [OF d] have dw: "d \<notin> set whitespace" and dm: "d \<noteq> CHR ''-''" and dp: "d \<noteq> CHR ''+''"
    by simp_all
  have tw: "takeWhile isDigit ds = ds" using assms(2) by simp
  show "parseInt ds = JInt (int (digitsValue ds))"
    using ds dw dm dp tw assms(1) by (simp add: parseInt_def Let_def)
  have mw: "CHR ''-'' \<notin> set whitespace" by (simp add: whitespace_def)
  show "parseInt (CHR ''-'' # ds) = JInt (- int (digitsValue ds))"
    using mw assms(1) by (simp add: parseInt_def Let_def tw)
qed

lemma parseInt_numberToString: "parseInt (numberToString (JInt k)) = JInt k"
proof (cases "k < 0")
  case True
  then show ?thesis
    using parseInt_digits(2) [OF digitsOf_nonempty digitsOf_isDigit, of "nat (- k)"]
    by (simp add: numberToString_def digitsValue_digitsOf)
next
  case False
  then show ?thesis
    using parseInt_digits(1) [OF digitsOf_nonempty digitsOf_isDigit, of "nat k"]
    by (simp add: numberToString_def digitsValue_digitsOf)
qed

lemma numberToString_chars:
  "\<forall>c \<in> set (numberToString (JInt k)). isNameChar c \<and> c \<noteq> CHR '',''"
proof
  fix c assume c: "c \<in> set (numberToString (JInt k))"
  have dig: "isNameChar d \<and> d \<noteq> CHR '',''" if "d \<in> set (digitsOf n)" for d n
    using that digitsOf_isDigit [of n] isDigit_props [of d] by blast
  have minus: "isNameChar (CHR ''-'') \<and> CHR ''-'' \<noteq> CHR '',''" by (simp add: isNameChar_def)
  show "isNameChar c \<and> c \<noteq> CHR '',''"
  proof (cases "k < 0")
    case True
    with c have "c = CHR ''-'' \<or> c \<in> set (digitsOf (nat (- k)))" by (simp add: numberToString_def)
    with dig minus show ?thesis by blast
  next
    case False
    with c have "c \<in> set (digitsOf (nat k))" by (simp add: numberToString_def)
    with dig show ?thesis by blast
  qed
qed

lemma numberToString_last:
  "numberToString (JInt k) \<noteq> [] \<and> last (numberToString (JInt k)) \<notin> set whitespace"
proof -
  have "digitsOf n \<noteq> [] \<and> last (digitsOf n) \<notin> set whitespace" for n
  proof -
    have ne: "digitsOf n \<noteq> []" by (rule digitsOf_nonempty)
    then have "last (digitsOf n) \<in> set (digitsOf n)" by (rule last_in_set)
    with digitsOf_isDigit [of n] have "isDigit (last (digitsOf n))" by blast
    with ne show ?thesis by (simp add: isDigit_props)
  qed
  then show ?thesis by (simp add: numberToString_def)
qed


lemma run_then_stop:
  assumes "\<forall>c \<in> set xs. P c" and "\<not> P y"
  shows "takeWhile P (xs @ y # ys) = xs" and "dropWhile P (xs @ y # ys) = y # ys"
  using assms by (induction xs) auto

lemma matchAnchors_empty: "matchAnchors [] = (None, None)"
  by (simp add: matchAnchors_def)

lemma matchAnchors_no_start:
  "matchAnchors ('':#'' @ e) = (None, None)"
  by (simp add: matchAnchors_def isNameChar_def)

lemma matchAnchors_start:
  assumes "X \<noteq> []" and "\<forall>c \<in> set X. isNameChar c"
  shows "matchAnchors (CHR ''#'' # X) = (Some X, None)"
proof -
  from assms(2) have t: "takeWhile isNameChar X = X" and d: "dropWhile isNameChar X = []"
    by simp_all
  from assms(1) show ?thesis by (simp add: matchAnchors_def Let_def t d)
qed

lemma matchAnchors_start_end:
  assumes "X \<noteq> []" and "\<forall>c \<in> set X. isNameChar c"
      and "e \<noteq> []" and "\<forall>c \<in> set e. isNameChar c"
  shows "matchAnchors (CHR ''#'' # X @ '':#'' @ e) = (Some X, Some e)"
proof -
  have stop: "\<not> isNameChar (CHR '':'')" by (simp add: isNameChar_def)
  from run_then_stop [OF assms(2) stop]
  have t: "takeWhile isNameChar (X @ CHR '':'' # CHR ''#'' # e) = X"
    and d: "dropWhile isNameChar (X @ CHR '':'' # CHR ''#'' # e) = CHR '':'' # CHR ''#'' # e"
    by blast+
  from assms(4) have te: "takeWhile isNameChar e = e" by simp
  from assms(1,3) show ?thesis
    by (simp add: matchAnchors_def Let_def t d te)
qed

lemma reLink_exec_link:
  assumes "f \<noteq> []" and "\<forall>c \<in> set f. isNameChar c"
  shows "reLink_exec (''[['' @ f @ '']]'' @ tail) = Some (f, matchAnchors tail)"
proof -
  have stop: "\<not> isNameChar (CHR '']'')" by (simp add: isNameChar_def)
  from run_then_stop [OF assms(2) stop]
  have t: "takeWhile isNameChar (f @ CHR '']'' # CHR '']'' # tail) = f"
    and d: "dropWhile isNameChar (f @ CHR '']'' # CHR '']'' # tail) = CHR '']'' # CHR '']'' # tail"
    by blast+
  have "matchHere (''[['' @ f @ '']]'' @ tail) = Some (f, matchAnchors tail)"
    using assms(1) by (simp add: matchHere_def Let_def t d)
  then show ?thesis by simp
qed

lemma lastSegment_plain: "CHR ''/'' \<notin> set f \<Longrightarrow> lastSegment f = f"
proof -
  assume n: "CHR ''/'' \<notin> set f"
  then have dw: "dropWhile (\<lambda>c. c = CHR ''/'') (rev f) = rev f"
    by (cases "rev f") (auto simp: rev_eq_Cons_iff)
  from n have tw: "takeWhile (\<lambda>c. c \<noteq> CHR ''/'') (rev f) = rev f" by auto
  show ?thesis by (simp add: lastSegment_def dw tw)
qed

lemma path_basename_plain:
  assumes "CHR ''/'' \<notin> set f" and "\<not> suffix ''.md'' f"
  shows "path_basename f ''.md'' = f"
proof -
  from assms(2) have "f \<noteq> ''.md''" by auto
  with assms show ?thesis by (auto simp: path_basename_def lastSegment_plain Let_def)
qed

lemma parseFileLink_groups:
  assumes "reLink_exec r = Some (name, aStart, aEnd)"
  shows "aStart = None \<Longrightarrow>
           parseFileLink r = Inr \<lparr>ref_from = \<lparr>loc_fname = path_basename name ''.md'', loc_vaultName = None\<rparr>,
                                  ref_data = \<lparr>anchorStart = None, anchorEnd = aEnd, anchorStartOffset = None\<rparr>\<rparr>"
    and "aStart = Some a \<Longrightarrow> CHR '','' \<notin> set a \<Longrightarrow>
           parseFileLink r = Inr \<lparr>ref_from = \<lparr>loc_fname = path_basename name ''.md'', loc_vaultName = None\<rparr>,
                                  ref_data = \<lparr>anchorStart = Some a, anchorEnd = aEnd, anchorStartOffset = None\<rparr>\<rparr>"
    and "aStart = Some (a @ CHR '','' # ds) \<Longrightarrow> CHR '','' \<notin> set a \<Longrightarrow> CHR '','' \<notin> set ds \<Longrightarrow>
           parseFileLink r = Inr \<lparr>ref_from = \<lparr>loc_fname = path_basename name ''.md'', loc_vaultName = None\<rparr>,
                                  ref_data = \<lparr>anchorStart = Some a, anchorEnd = aEnd,
                                              anchorStartOffset = Some (parseInt ds)\<rparr>\<rparr>"
proof -
  show "aStart = None \<Longrightarrow>
           parseFileLink r = Inr \<lparr>ref_from = \<lparr>loc_fname = path_basename name ''.md'', loc_vaultName = None\<rparr>,
                                  ref_data = \<lparr>anchorStart = None, anchorEnd = aEnd, anchorStartOffset = None\<rparr>\<rparr>"
    using assms by (simp add: parseFileLink_def)
  show "aStart = Some a \<Longrightarrow> CHR '','' \<notin> set a \<Longrightarrow>
           parseFileLink r = Inr \<lparr>ref_from = \<lparr>loc_fname = path_basename name ''.md'', loc_vaultName = None\<rparr>,
                                  ref_data = \<lparr>anchorStart = Some a, anchorEnd = aEnd, anchorStartOffset = None\<rparr>\<rparr>"
    using assms by (simp add: parseFileLink_def)
  show "aStart = Some (a @ CHR '','' # ds) \<Longrightarrow> CHR '','' \<notin> set a \<Longrightarrow> CHR '','' \<notin> set ds \<Longrightarrow>
           parseFileLink r = Inr \<lparr>ref_from = \<lparr>loc_fname = path_basename name ''.md'', loc_vaultName = None\<rparr>,
                                  ref_data = \<lparr>anchorStart = Some a, anchorEnd = aEnd,
                                              anchorStartOffset = Some (parseInt ds)\<rparr>\<rparr>"
    using assms by (simp add: parseFileLink_def splitOn_first splitOn_no_separator)
qed

lemma parseDendronRef_ref:
  assumes "CHR '']'' \<in> set lnk" and "hd lnk \<notin> set whitespace" and "last lnk \<notin> set whitespace"
  shows "parseDendronRef (''ref: '' @ lnk)
           = (case parseFileLink lnk of Inl e \<Rightarrow> Inl e | Inr link \<Rightarrow> Inr (''to'', link))"
proof -
  from assms(1) have ne: "lnk \<noteq> []" by auto
  have "hd (''ref: '' @ lnk) \<notin> set whitespace" by (simp add: whitespace_def)
  moreover have "last (''ref: '' @ lnk) \<notin> set whitespace" using ne assms(3) by simp
  ultimately have t1: "trim (''ref: '' @ lnk) = ''ref: '' @ lnk"
    unfolding trim_def by (intro trimChars_id) simp
  have sp: "splitOn (CHR '':'') (''ref: '' @ lnk) = ''ref'' # splitOn (CHR '':'') (CHR '' '' # lnk)"
    using splitOn_first [of "CHR '':''" "''ref''" "CHR '' '' # lnk"] by simp
  have j: "joinWith (CHR '':'') (splitOn (CHR '':'') (CHR '' '' # lnk)) = CHR '' '' # lnk"
    by (rule joinWith_splitOn)
  have "trim (CHR '' '' # lnk) = trim lnk"
    unfolding trim_def by (rule trimChars_leading) (simp add: whitespace_def)
  also have "trim lnk = lnk"
    unfolding trim_def using assms(2,3) by (intro trimChars_id) simp
  finally have t2: "trim (CHR '' '' # lnk) = lnk" .
  show ?thesis
    using assms(1) by (simp only: parseDendronRef_def t1 sp j t2 Let_def list.case parseLink_def if_True refl)
qed


lemma round_trip_without_anchors:
  assumes "f \<noteq> []" and "\<forall>c \<in> set f. isNameChar c" and "path_basename f ''.md'' = f"
  shows "parseDendronRef (''ref: '' @ ''[['' @ f @ '']]'')
           = Inr (''to'', \<lparr>ref_from = \<lparr>loc_fname = f, loc_vaultName = None\<rparr>,
                           ref_data = \<lparr>anchorStart = None, anchorEnd = None, anchorStartOffset = None\<rparr>\<rparr>)"
proof -
  define lnk where "lnk = ''[['' @ f @ '']]'' @ []"
  have ex: "reLink_exec lnk = Some (f, None, None)"
    unfolding lnk_def using reLink_exec_link [OF assms(1,2), of "[]"] by (simp only: matchAnchors_empty)
  have pf: "parseFileLink lnk
              = Inr \<lparr>ref_from = \<lparr>loc_fname = f, loc_vaultName = None\<rparr>,
                     ref_data = \<lparr>anchorStart = None, anchorEnd = None, anchorStartOffset = None\<rparr>\<rparr>"
    using parseFileLink_groups(1) [OF ex] assms(3) by simp
  have c1: "CHR '']'' \<in> set lnk" by (simp add: lnk_def)
  have c2: "hd lnk \<notin> set whitespace" by (simp add: lnk_def whitespace_def)
  have c3: "last lnk \<notin> set whitespace" by (simp add: lnk_def whitespace_def)
  have "parseDendronRef (''ref: '' @ lnk)
          = Inr (''to'', \<lparr>ref_from = \<lparr>loc_fname = f, loc_vaultName = None\<rparr>,
                          ref_data = \<lparr>anchorStart = None, anchorEnd = None, anchorStartOffset = None\<rparr>\<rparr>)"
    by (simp only: parseDendronRef_ref [OF c1 c2 c3] pf sum.case)
  then show ?thesis by (simp add: lnk_def)
qed

lemma round_trip_with_start:
  assumes "f \<noteq> []" and "\<forall>c \<in> set f. isNameChar c" and "path_basename f ''.md'' = f"
      and "X \<noteq> []" and "\<forall>c \<in> set X. isNameChar c"
      and "E = [] \<and> aE = None \<and> last X \<notin> set whitespace
           \<or> (\<exists>e. E = '':#'' @ e \<and> aE = Some e \<and> e \<noteq> [] \<and> (\<forall>c \<in> set e. isNameChar c)
                  \<and> last e \<notin> set whitespace)"
  shows "parseDendronRef (''ref: '' @ ''[['' @ f @ '']]'' @ CHR ''#'' # X @ E)
           = (case parseFileLink (''[['' @ f @ '']]'' @ CHR ''#'' # X @ E) of
                Inl e \<Rightarrow> Inl e | Inr link \<Rightarrow> Inr (''to'', link))"
    and "reLink_exec (''[['' @ f @ '']]'' @ CHR ''#'' # X @ E) = Some (f, Some X, aE)"
proof -
  define lnk where "lnk = ''[['' @ f @ '']]'' @ CHR ''#'' # X @ E"
  have m: "matchAnchors (CHR ''#'' # X @ E) = (Some X, aE)"
    using assms(6)
  proof
    assume "E = [] \<and> aE = None \<and> last X \<notin> set whitespace"
    then show ?thesis using matchAnchors_start [OF assms(4,5)] by simp
  next
    assume "\<exists>e. E = '':#'' @ e \<and> aE = Some e \<and> e \<noteq> [] \<and> (\<forall>c \<in> set e. isNameChar c)
                  \<and> last e \<notin> set whitespace"
    then obtain e where e: "E = '':#'' @ e" "aE = Some e" "e \<noteq> []" "\<forall>c \<in> set e. isNameChar c"
      by blast
    from matchAnchors_start_end [OF assms(4,5) e(3,4)] e(1,2) show ?thesis by simp
  qed
  show ex: "reLink_exec (''[['' @ f @ '']]'' @ CHR ''#'' # X @ E) = Some (f, Some X, aE)"
    using reLink_exec_link [OF assms(1,2), of "CHR ''#'' # X @ E"] by (simp only: m)
  have c1: "CHR '']'' \<in> set lnk" by (simp add: lnk_def)
  have c2: "hd lnk \<notin> set whitespace" by (simp add: lnk_def whitespace_def)
  have c3: "last lnk \<notin> set whitespace"
    using assms(6)
  proof
    assume "E = [] \<and> aE = None \<and> last X \<notin> set whitespace"
    with assms(4) show ?thesis by (simp add: lnk_def)
  next
    assume "\<exists>e. E = '':#'' @ e \<and> aE = Some e \<and> e \<noteq> [] \<and> (\<forall>c \<in> set e. isNameChar c)
                  \<and> last e \<notin> set whitespace"
    then obtain e where "E = '':#'' @ e" "e \<noteq> []" "last e \<notin> set whitespace" by blast
    then show ?thesis by (simp add: lnk_def)
  qed
  from parseDendronRef_ref [OF c1 c2 c3]
  show "parseDendronRef (''ref: '' @ ''[['' @ f @ '']]'' @ CHR ''#'' # X @ E)
           = (case parseFileLink (''[['' @ f @ '']]'' @ CHR ''#'' # X @ E) of
                Inl e \<Rightarrow> Inl e | Inr link \<Rightarrow> Inr (''to'', link))"
    by (simp only: lnk_def)
qed

text \<open>
  C7. The reference string of a link, written with the \<open>ref:\<close> tag and without
  parentheses, parses back to direction \<open>to\<close> and to the same fname, anchorStart,
  anchorStartOffset and anchorEnd, provided that: the fname is not empty, has none of the
  characters \<open>]\<close>, \<open>:\<close>, \<open>/\<close> and does not end in \<open>.md\<close>; an anchor that is present is
  not empty, is in normalized form, has no \<open>]\<close> or \<open>:\<close> (and anchorStart no \<open>,\<close>) and
  does not end in white space; an offset that is present is a non-zero integer below
  \<open>10^21\<close> in absolute value; and an offset or an anchorEnd comes only with an anchorStart.
\<close>

theorem C7_ref_round_trip:
  assumes "f \<noteq> []" and "\<forall>c \<in> set f. c \<notin> {CHR '']'', CHR '':'', CHR ''/''}"
      and "\<not> suffix ''.md'' f"
      and "\<forall>a. aS = Some a \<longrightarrow> a \<noteq> [] \<and> normalize a = a
                \<and> (\<forall>c \<in> set a. c \<notin> {CHR '']'', CHR '':'', CHR '',''})
                \<and> last a \<notin> set whitespace"
      and "\<forall>x. aO = Some x \<longrightarrow> aS \<noteq> None \<and> (\<exists>k. x = JInt k \<and> k \<noteq> 0 \<and> \<bar>k\<bar> < 10 ^ 21)"
      and "\<forall>e. aE = Some e \<longrightarrow> aS \<noteq> None \<and> e \<noteq> [] \<and> normalize e = e
                \<and> (\<forall>c \<in> set e. c \<notin> {CHR '']'', CHR '':''})
                \<and> last e \<notin> set whitespace"
  shows "parseDendronRef
           (refLink2String
              \<lparr>ref_from = \<lparr>loc_fname = f, loc_vaultName = vn\<rparr>,
               ref_data = \<lparr>anchorStart = aS, anchorEnd = aE, anchorStartOffset = aO\<rparr>\<rparr>
              (Some \<lparr>includeParen = False, includeRefTag = Some True\<rparr>))
         = Inr (''to'',
                \<lparr>ref_from = \<lparr>loc_fname = f, loc_vaultName = None\<rparr>,
                 ref_data = \<lparr>anchorStart = aS, anchorEnd = aE, anchorStartOffset = aO\<rparr>\<rparr>)"
proof -
  let ?L = "\<lparr>ref_from = \<lparr>loc_fname = f, loc_vaultName = vn\<rparr>,
             ref_data = \<lparr>anchorStart = aS, anchorEnd = aE, anchorStartOffset = aO\<rparr>\<rparr>"
  let ?o = "Some \<lparr>includeParen = False, includeRefTag = Some True\<rparr>"
  have fn: "\<forall>c \<in> set f. isNameChar c" using assms(2) by (simp add: isNameChar_def)
  have "CHR ''/'' \<notin> set f" using assms(2) by auto
  then have base: "path_basename f ''.md'' = f" using assms(3) by (rule path_basename_plain)
  show ?thesis
  proof (cases aS)
    case None
    have no: "aO = None" "aE = None"
    proof -
      from None assms(5) show "aO = None" by (cases aO) auto
      from None assms(6) show "aE = None" by (cases aE) auto
    qed
    have str: "refLink2String ?L ?o = ''ref: '' @ ''[['' @ f @ '']]''"
      using None no by (simp add: refLink2String_def Let_def truthyString_def truthyNumber_def)
    have "parseDendronRef (refLink2String ?L ?o)
            = Inr (''to'', \<lparr>ref_from = \<lparr>loc_fname = f, loc_vaultName = None\<rparr>,
                            ref_data = \<lparr>anchorStart = None, anchorEnd = None, anchorStartOffset = None\<rparr>\<rparr>)"
      by (simp only: str round_trip_without_anchors [OF assms(1) fn base])
    then show ?thesis using None no by simp
  next
    case (Some a)
    with assms(4) have a: "a \<noteq> []" "normalize a = a"
      "\<forall>c \<in> set a. c \<notin> {CHR '']'', CHR '':'', CHR '',''}" "last a \<notin> set whitespace"
      by blast+
    from a(3) have an: "\<forall>c \<in> set a. isNameChar c" and ac: "CHR '','' \<notin> set a"
      by (auto simp: isNameChar_def)
    define Ofs where "Ofs = (case aO of None \<Rightarrow> [] | Some x \<Rightarrow> CHR '','' # numberToString x)"
    define E where "E = (case aE of None \<Rightarrow> [] | Some e \<Rightarrow> '':#'' @ e)"
    define X where "X = a @ Ofs"
    have str: "refLink2String ?L ?o = ''ref: '' @ ''[['' @ f @ '']]'' @ CHR ''#'' # X @ E"
    proof -
      have tO: "truthyNumber aO \<longleftrightarrow> aO \<noteq> None"
        using assms(5) by (cases aO) (auto simp: truthyNumber_def)
      have tE: "truthyString aE \<longleftrightarrow> aE \<noteq> None"
        using assms(6) by (cases aE) (auto simp: truthyString_def)
      have nE: "\<And>e. aE = Some e \<Longrightarrow> normalize e = e" using assms(6) by blast
      show ?thesis
        using Some a(1,2) tO tE nE
        by (cases aO; cases aE)
           (simp_all add: refLink2String_def Let_def truthyString_def X_def Ofs_def E_def)
    qed
    have Xne: "X \<noteq> []" using a(1) by (simp add: X_def)
    have Ofsn: "\<forall>c \<in> set Ofs. isNameChar c"
    proof (cases aO)
      case None
      then show ?thesis by (simp add: Ofs_def)
    next
      case (Some x)
      with assms(5) obtain k where "x = JInt k" by blast
      with Some numberToString_chars [of k] show ?thesis by (simp add: Ofs_def isNameChar_def)
    qed
    with an have Xn: "\<forall>c \<in> set X. isNameChar c" by (auto simp: X_def)
    have Xlast: "last X \<notin> set whitespace"
    proof (cases aO)
      case None
      then show ?thesis using a(1,4) by (simp add: X_def Ofs_def)
    next
      case (Some x)
      with assms(5) obtain k where "x = JInt k" by blast
      with Some numberToString_last [of k] show ?thesis by (simp add: X_def Ofs_def)
    qed
    have Ecase: "E = [] \<and> aE = None \<and> last X \<notin> set whitespace
           \<or> (\<exists>e. E = '':#'' @ e \<and> aE = Some e \<and> e \<noteq> [] \<and> (\<forall>c \<in> set e. isNameChar c)
                  \<and> last e \<notin> set whitespace)"
    proof (cases aE)
      case None
      with Xlast show ?thesis by (simp add: E_def)
    next
      case (Some e)
      with assms(6) have "e \<noteq> []" "\<forall>c \<in> set e. c \<notin> {CHR '']'', CHR '':''}" "last e \<notin> set whitespace"
        by blast+
      with Some show ?thesis by (simp add: E_def isNameChar_def)
    qed
    note rt = round_trip_with_start [OF assms(1) fn base Xne Xn Ecase]
    have pf: "parseFileLink (''[['' @ f @ '']]'' @ CHR ''#'' # X @ E)
                = Inr \<lparr>ref_from = \<lparr>loc_fname = f, loc_vaultName = None\<rparr>,
                       ref_data = \<lparr>anchorStart = Some a, anchorEnd = aE, anchorStartOffset = aO\<rparr>\<rparr>"
    proof (cases aO)
      case None
      then have "X = a" by (simp add: X_def Ofs_def)
      with rt(2) have ex: "reLink_exec (''[['' @ f @ '']]'' @ CHR ''#'' # X @ E) = Some (f, Some a, aE)"
        by simp
      from parseFileLink_groups(2) [OF ex refl ac] base None show ?thesis by simp
    next
      case (Some x)
      with assms(5) obtain k where k: "x = JInt k" by blast
      with Some have Xk: "X = a @ CHR '','' # numberToString (JInt k)" by (simp add: X_def Ofs_def)
      have nc: "CHR '','' \<notin> set (numberToString (JInt k))"
        using numberToString_chars [of k] by blast
      from rt(2) Xk
      have ex: "reLink_exec (''[['' @ f @ '']]'' @ CHR ''#'' # X @ E)
                  = Some (f, Some (a @ CHR '','' # numberToString (JInt k)), aE)"
        by simp
      from parseFileLink_groups(3) [OF ex refl ac nc] base Some k
      show ?thesis by (simp add: parseInt_numberToString)
    qed
    have "parseDendronRef (refLink2String ?L ?o)
            = Inr (''to'', \<lparr>ref_from = \<lparr>loc_fname = f, loc_vaultName = None\<rparr>,
                            ref_data = \<lparr>anchorStart = Some a, anchorEnd = aE, anchorStartOffset = aO\<rparr>\<rparr>)"
      by (simp only: str rt(1) pf sum.case)
    then show ?thesis using Some by simp
  qed
qed


lemmas ref_eval =
  refLink2String_def parseDendronRef_def parseLink_def parseFileLink_def matchHere_def
  matchAnchors_def isNameChar_def path_basename_def lastSegment_def normalize_def toLower_def
  toLowerChar_def trim_def trimChars_def whitespace_def truthyString_def truthyNumber_def
  numberToString_def parseInt_def isDigit_def digitsValue_def suffix_to_prefix Let_def

theorem C7_ref_round_trip_witness:
  "normalize ''head1'' = ''head1'' \<and> normalize ''*'' = ''*''
   \<and> refLink2String
         \<lparr>ref_from = \<lparr>loc_fname = ''foo'', loc_vaultName = None\<rparr>,
          ref_data = \<lparr>anchorStart = Some ''head1'', anchorEnd = Some ''*'',
                      anchorStartOffset = Some (JInt 2)\<rparr>\<rparr>
         (Some \<lparr>includeParen = False, includeRefTag = Some True\<rparr>)
       = ''ref: [[foo]]#head1,2:#*''
   \<and> parseDendronRef ''ref: [[foo]]#head1,2:#*''
       = Inr (''to'',
              \<lparr>ref_from = \<lparr>loc_fname = ''foo'', loc_vaultName = None\<rparr>,
               ref_data = \<lparr>anchorStart = Some ''head1'', anchorEnd = Some ''*'',
                           anchorStartOffset = Some (JInt 2)\<rparr>\<rparr>)"
proof -
  have n1: "normalize ''head1'' = ''head1''" by (simp add: ref_eval)
  have n2: "normalize ''*'' = ''*''" by (simp add: ref_eval)
  have str: "refLink2String
         \<lparr>ref_from = \<lparr>loc_fname = ''foo'', loc_vaultName = None\<rparr>,
          ref_data = \<lparr>anchorStart = Some ''head1'', anchorEnd = Some ''*'',
                      anchorStartOffset = Some (JInt 2)\<rparr>\<rparr>
         (Some \<lparr>includeParen = False, includeRefTag = Some True\<rparr>)
       = ''ref: [[foo]]#head1,2:#*''"
  proof -
    have d: "digitsOf 2 = ''2''" by code_simp
    show ?thesis by (simp add: ref_eval d)
  qed
  have h1: "''foo'' \<noteq> []" by simp
  have h2: "\<forall>c \<in> set ''foo''. c \<notin> {CHR '']'', CHR '':'', CHR ''/''}" by simp
  have h3: "\<not> suffix ''.md'' ''foo''" by (simp add: suffix_to_prefix)
  have h4: "\<forall>a. Some ''head1'' = Some a \<longrightarrow> a \<noteq> [] \<and> normalize a = a
                \<and> (\<forall>c \<in> set a. c \<notin> {CHR '']'', CHR '':'', CHR '',''})
                \<and> last a \<notin> set whitespace"
    using n1 by (simp add: whitespace_def)
  have h5: "\<forall>x. Some (JInt 2) = Some x \<longrightarrow> Some ''head1'' \<noteq> None
                \<and> (\<exists>k. x = JInt k \<and> k \<noteq> 0 \<and> \<bar>k\<bar> < 10 ^ 21)"
    by simp
  have h6: "\<forall>e. Some ''*'' = Some e \<longrightarrow> Some ''head1'' \<noteq> None \<and> e \<noteq> [] \<and> normalize e = e
                \<and> (\<forall>c \<in> set e. c \<notin> {CHR '']'', CHR '':''})
                \<and> last e \<notin> set whitespace"
    using n2 by (simp add: whitespace_def)
  from C7_ref_round_trip [OF h1 h2 h3 h4 h5 h6, of None] str n1 n2 show ?thesis by simp
qed

text \<open>
  The claim fails for a link with an anchorEnd and no anchorStart: the string is
  \<open>ref: [[foo]]:#bar\<close>, and the optional group of the expression needs an anchorStart
  before \<open>:#\<close>, so the parsed link has no anchorEnd.
\<close>

theorem C7_anchorEnd_only_counterexample:
  "normalize ''bar'' = ''bar''
   \<and> refLink2String
         \<lparr>ref_from = \<lparr>loc_fname = ''foo'', loc_vaultName = None\<rparr>,
          ref_data = \<lparr>anchorStart = None, anchorEnd = Some ''bar'', anchorStartOffset = None\<rparr>\<rparr>
         (Some \<lparr>includeParen = False, includeRefTag = Some True\<rparr>)
       = ''ref: [[foo]]:#bar''
   \<and> parseDendronRef ''ref: [[foo]]:#bar''
       = Inr (''to'',
              \<lparr>ref_from = \<lparr>loc_fname = ''foo'', loc_vaultName = None\<rparr>,
               ref_data = \<lparr>anchorStart = None, anchorEnd = None, anchorStartOffset = None\<rparr>\<rparr>)
   \<and> anchorEnd (ref_data (snd (projr (parseDendronRef ''ref: [[foo]]:#bar'')))) \<noteq> Some ''bar''"
  by (simp add: ref_eval)

end
